theory Spec2Isabelle
  imports Main
begin

section \<open>Property marshalling of the Python runtime (rpc.py)\<close>

text \<open>
  The module serializes native input values into the values of a protobuf \<open>Struct\<close>,
  deserializes such values back into native values, and delivers the properties a
  resource registration returned to the futures of the resource's outputs. The
  definitions below follow \<^verbatim>\<open>sdk/python/lib/pulumi/runtime/rpc.py\<close> function by function.
\<close>

subsection \<open>Values\<close>

text \<open>
  A \<open>wire\<close> value is what a protobuf \<open>Value\<close> holds: null, a bool, a number, a string, a
  \<open>ListValue\<close> or a \<open>Struct\<close>. The plain Python values \<open>serialize_property\<close> returns
  (\<open>None\<close>, bool, number, \<open>str\<close>, \<open>list\<close>, \<open>dict\<close>) correspond to them one to one when
  \<open>serialize_properties\<close> stores them in its \<open>Struct\<close>, so one type stands for both;
  only numbers change when they are stored (\<open>set_struct_value\<close> below). A mapping is an
  association list in insertion order. A number is a Python \<open>int\<close> or \<open>float\<close> whose value
  is an integer, and \<open>WNum n\<close>, \<open>PNum n\<close> is the number of value \<open>n\<close>; a float with a
  fractional part, an infinity or a NaN is not among the values.
\<close>

datatype wire =
    WNull
  | WBool bool
  | WNum int
  | WStr string
  | WList "wire list"
  | WStruct "(string \<times> wire) list"

type_synonym entity = string

text \<open>
  A native value, by the class tests of \<open>serialize_property\<close> and the results of
  \<open>deserialize_property\<close>:
  \<^item> \<open>PUnknown\<close>: an instance of \<open>Unknown\<close> (\<open>known_types.is_unknown\<close>);
  \<^item> \<open>PResource r i\<close>: the custom resource \<open>r\<close> whose attribute \<open>id\<close> is \<open>i\<close>;
  \<^item> \<open>PAsset path text uri\<close>: an asset; each argument is the attribute of that name,
    \<open>None\<close> where \<open>hasattr\<close> is false;
  \<^item> \<open>PArchive assets path uri\<close>: an archive, likewise;
  \<^item> \<open>PAwaitable v\<close>: an awaitable that completes with the value \<open>v\<close>;
  \<^item> \<open>POutput rs known secret fut\<close>: an \<open>Output\<close> whose \<open>resources()\<close>, \<open>_is_known\<close> and
    \<open>_is_secret\<close> complete with \<open>rs\<close>, \<open>known\<close> and \<open>secret\<close>, and whose \<open>future()\<close>
    returns the object \<open>fut\<close> (an awaitable);
  \<^item> \<open>PInputType d\<close>: an instance of an input type whose \<open>_to_dict\<close> returns \<open>d\<close>;
  \<^item> \<open>PTyped n d\<close>: an instance of the output type \<open>n\<close> built from the mapping \<open>d\<close>;
    output types are \<open>dict\<close> subclasses, as the repository's tests declare them;
  \<^item> \<open>PProto w\<close>: a protobuf \<open>Struct\<close> or \<open>ListValue\<close> object kept as it is;
  \<^item> \<open>POther n\<close>: an object of any other class, \<open>n\<close> its type name.

  An object is of one of these kinds only. An awaitable that raises or never completes
  is not among them: every \<open>await\<close> of the serializer returns.
\<close>

text \<open>
  Modelled from the spec: the classes behind the tests of \<open>known_types\<close> (\<open>Unknown\<close>,
  custom resources, assets, archives, \<open>Output\<close>) and the input types are collaborators
  of this module. They are the spec's not-yet-known placeholder, resource reference,
  asset and archive, managed output and typed record; a value of such a class carries
  what \<open>serialize_property\<close> reads from it.
\<close>

datatype pyval =
    PNone
  | PBool bool
  | PNum int
  | PStr string
  | PList "pyval list"
  | PDict "(string \<times> pyval) list"
  | PUnknown
  | PResource entity pyval
  | PAsset "pyval option" "pyval option" "pyval option"
  | PArchive "pyval option" "pyval option" "pyval option"
  | PAwaitable pyval
  | POutput "entity list" bool bool pyval
  | PInputType "(string \<times> pyval) list"
  | PTyped string "(string \<times> pyval) list"
  | PProto wire
  | POther string

text \<open>
  The exceptions raised, by class. The string is the fixed part of the message where the
  source gives one: the source appends the offending value to \<open>unknown asset type\<close> and
  \<open>unknown archive type\<close>, which the model leaves out.
\<close>

datatype error =
    AssertionError string
  | ValueError string
  | KeyError string
  | AttributeError string
  | OverflowError
  | InvalidStateError

text \<open>
  Modelled from the spec: the module \<open>settings\<close> is a collaborator, the session with the
  engine. The record holds what its three queries answer during this run.
\<close>

record settings =
  is_dry_run :: bool
  is_legacy_apply_enabled :: bool
  monitor_supports_secrets :: bool

definition UNKNOWN :: string where
  "UNKNOWN = ''04da6b54-80e4-46f7-96ec-b56ff0331ba9''"

definition special_sig_key :: string where
  "special_sig_key = ''4dabf18193072939515e22adb298388d''"

definition special_asset_sig :: string where
  "special_asset_sig = ''c44067f5952c0a294b673a41bacd8c17''"

definition special_archive_sig :: string where
  "special_archive_sig = ''0def7320c3a5731c473e5ecbe6d01bc7''"

definition special_secret_sig :: string where
  "special_secret_sig = ''1b47061264138c4ac30d75fd1eb44270''"

text \<open>
  \<open>d[k] = v\<close> on a Python \<open>dict\<close>: a key already present keeps its place and takes the
  new value, a new key goes to the end.
\<close>

fun dict_set :: "(string \<times> 'v) list \<Rightarrow> string \<Rightarrow> 'v \<Rightarrow> (string \<times> 'v) list" where
  "dict_set [] k v = [(k, v)]"
| "dict_set ((k', v') # kvs) k v =
     (if k' = k then (k, v) # kvs else (k', v') # dict_set kvs k v)"

text \<open>
  A key under the optional \<open>input_transformer\<close>: the key itself when the transformer is
  \<open>None\<close>.
\<close>

fun transformed :: "(string \<Rightarrow> string) option \<Rightarrow> string \<Rightarrow> string" where
  "transformed None k = k"
| "transformed (Some input_transformer) k = input_transformer k"

subsection \<open>Serialization\<close>

text \<open>
  \<open>serialize_property\<close> takes the value, the \<open>deps\<close> list it appends to and the
  \<open>input_transformer\<close>; it returns the serialized value with the \<open>deps\<close> list as the
  call leaves it, or the exception it raises. \<open>serialize_elems\<close> is its loop over the
  elements of a list (\<open>props\<close> the list built so far), \<open>serialize_items\<close> its loop over
  the items of a dict (\<open>obj\<close> the dict built so far).
\<close>

function
  serialize_property ::
    "settings \<Rightarrow> pyval \<Rightarrow> entity list \<Rightarrow> (string \<Rightarrow> string) option \<Rightarrow>
       error + (wire \<times> entity list)" and
  serialize_elems ::
    "settings \<Rightarrow> pyval list \<Rightarrow> entity list \<Rightarrow> (string \<Rightarrow> string) option \<Rightarrow> wire list \<Rightarrow>
       error + (wire list \<times> entity list)" and
  serialize_items ::
    "settings \<Rightarrow> (string \<times> pyval) list \<Rightarrow> bool \<Rightarrow> entity list \<Rightarrow> (string \<Rightarrow> string) option \<Rightarrow>
       (string \<times> wire) list \<Rightarrow> error + ((string \<times> wire) list \<times> entity list)"
where
  "serialize_property st (PList elems) deps tr =
     (case serialize_elems st elems deps tr [] of
        Inl e \<Rightarrow> Inl e
      | Inr (props, deps') \<Rightarrow> Inr (WList props, deps'))"
| "serialize_property st PUnknown deps tr = Inr (WStr UNKNOWN, deps)"
| "serialize_property st (PResource resource rid) deps tr =
     serialize_property st rid (deps @ [resource]) tr"
| "serialize_property st (PAsset path text uri) deps tr =
     (case path of
        Some p \<Rightarrow>
          (case serialize_property st p deps tr of
             Inl e \<Rightarrow> Inl e
           | Inr (w, deps') \<Rightarrow>
               Inr (WStruct (dict_set [(special_sig_key, WStr special_asset_sig)] ''path'' w), deps'))
      | None \<Rightarrow>
     (case text of
        Some t \<Rightarrow>
          (case serialize_property st t deps tr of
             Inl e \<Rightarrow> Inl e
           | Inr (w, deps') \<Rightarrow>
               Inr (WStruct (dict_set [(special_sig_key, WStr special_asset_sig)] ''text'' w), deps'))
      | None \<Rightarrow>
     (case uri of
        Some u \<Rightarrow>
          (case serialize_property st u deps tr of
             Inl e \<Rightarrow> Inl e
           | Inr (w, deps') \<Rightarrow>
               Inr (WStruct (dict_set [(special_sig_key, WStr special_asset_sig)] ''uri'' w), deps'))
      | None \<Rightarrow> Inl (AssertionError ''unknown asset type''))))"
| "serialize_property st (PArchive assets path uri) deps tr =
     (case assets of
        Some a \<Rightarrow>
          (case serialize_property st a deps tr of
             Inl e \<Rightarrow> Inl e
           | Inr (w, deps') \<Rightarrow>
               Inr (WStruct (dict_set [(special_sig_key, WStr special_archive_sig)] ''assets'' w), deps'))
      | None \<Rightarrow>
     (case path of
        Some p \<Rightarrow>
          (case serialize_property st p deps tr of
             Inl e \<Rightarrow> Inl e
           | Inr (w, deps') \<Rightarrow>
               Inr (WStruct (dict_set [(special_sig_key, WStr special_archive_sig)] ''path'' w), deps'))
      | None \<Rightarrow>
     (case uri of
        Some u \<Rightarrow>
          (case serialize_property st u deps tr of
             Inl e \<Rightarrow> Inl e
           | Inr (w, deps') \<Rightarrow>
               Inr (WStruct (dict_set [(special_sig_key, WStr special_archive_sig)] ''uri'' w), deps'))
      | None \<Rightarrow> Inl (AssertionError ''unknown archive type''))))"
| "serialize_property st (PAwaitable future_return) deps tr =
     serialize_property st future_return deps tr"
| "serialize_property st (POutput value_resources is_known is_secret fut) deps tr =
     (case serialize_property st fut (deps @ value_resources) tr of
        Inl e \<Rightarrow> Inl e
      | Inr (v, deps') \<Rightarrow>
          if \<not> is_known then Inr (WStr UNKNOWN, deps')
          else if is_secret \<and> monitor_supports_secrets st then
            Inr (WStruct [(special_sig_key, WStr special_secret_sig), (''value'', v)], deps')
          else Inr (v, deps'))"
| "serialize_property st (PInputType d) deps tr =
     (case serialize_items st d False deps tr [] of
        Inl e \<Rightarrow> Inl e
      | Inr (obj, deps') \<Rightarrow> Inr (WStruct obj, deps'))"
| "serialize_property st (PDict d) deps tr =
     (case serialize_items st d True deps tr [] of
        Inl e \<Rightarrow> Inl e
      | Inr (obj, deps') \<Rightarrow> Inr (WStruct obj, deps'))"
| "serialize_property st (PTyped n d) deps tr =
     (case serialize_items st d True deps tr [] of
        Inl e \<Rightarrow> Inl e
      | Inr (obj, deps') \<Rightarrow> Inr (WStruct obj, deps'))"
| "serialize_property st PNone deps tr = Inr (WNull, deps)"
| "serialize_property st (PBool b) deps tr = Inr (WBool b, deps)"
| "serialize_property st (PNum n) deps tr = Inr (WNum n, deps)"
| "serialize_property st (PStr s) deps tr = Inr (WStr s, deps)"
| "serialize_property st (PProto w) deps tr =
     Inl (ValueError (''unexpected input of type ''
        @ (case w of WList _ \<Rightarrow> ''ListValue'' | _ \<Rightarrow> ''Struct'')))"
| "serialize_property st (POther n) deps tr =
     Inl (ValueError (''unexpected input of type '' @ n))"
| "serialize_elems st [] deps tr props = Inr (props, deps)"
| "serialize_elems st (elem # elems) deps tr props =
     (case serialize_property st elem deps tr of
        Inl e \<Rightarrow> Inl e
      | Inr (w, deps') \<Rightarrow> serialize_elems st elems deps' tr (props @ [w]))"
| "serialize_items st [] transform_keys deps tr obj = Inr (obj, deps)"
| "serialize_items st ((k, v) # items) transform_keys deps tr obj =
     (let transformed_key = (if transform_keys then transformed tr k else k)
      in case serialize_property st v deps tr of
           Inl e \<Rightarrow> Inl e
         | Inr (w, deps') \<Rightarrow>
             serialize_items st items transform_keys deps' tr (dict_set obj transformed_key w))"
  by pat_completeness auto

termination
  by (relation "measure (\<lambda>x. case x of
        Inl (st, v, deps, tr) \<Rightarrow> size v
      | Inr (Inl (st, vs, deps, tr, props)) \<Rightarrow> size_list size vs
      | Inr (Inr (st, kvs, b, deps, tr, obj)) \<Rightarrow> size_list (size_prod (\<lambda>_. 0) size) kvs)")
    auto


text \<open>
  The number field of a protobuf \<open>Value\<close> is a double. \<open>nearest_double\<close> is the double
  nearest to an integer, as Python converts an \<open>int\<close> to a \<open>float\<close>: the integer rounded
  to 53 significant bits, a tie going to the even neighbour. \<open>number_value\<close> is the
  assignment to the field, which raises \<open>OverflowError\<close> when the rounded value is beyond
  the largest double.
\<close>

fun bit_length :: "nat \<Rightarrow> nat" where
  "bit_length n = (if n = 0 then 0 else Suc (bit_length (n div 2)))"

declare bit_length.simps [simp del]

definition nearest_double :: "int \<Rightarrow> int" where
  "nearest_double n =
     (let a = nat \<bar>n\<bar>;
          e = bit_length a - 53;
          q = a div 2 ^ e;
          r = a mod 2 ^ e
      in if 2 ^ e < 2 * r \<or> (2 * r = 2 ^ e \<and> odd q)
         then sgn n * int ((q + 1) * 2 ^ e)
         else sgn n * int (q * 2 ^ e))"

definition number_value :: "int \<Rightarrow> error + int" where
  "number_value n =
     (let d = nearest_double n
      in if 2 ^ 1024 \<le> \<bar>d\<bar> then Inl OverflowError else Inr d)"

text \<open>
  \<open>struct[key] = value\<close> on a \<open>Struct\<close>: what the field holds afterwards. \<open>None\<close>, a bool
  and a string are stored as they are, a number as a double, a list and a dict member by
  member.
\<close>

function
  set_struct_value :: "wire \<Rightarrow> error + wire" and
  set_list_values :: "wire list \<Rightarrow> error + wire list" and
  set_struct_fields :: "(string \<times> wire) list \<Rightarrow> error + (string \<times> wire) list"
where
  "set_struct_value WNull = Inr WNull"
| "set_struct_value (WBool b) = Inr (WBool b)"
| "set_struct_value (WStr s) = Inr (WStr s)"
| "set_struct_value (WNum n) =
     (case number_value n of Inl e \<Rightarrow> Inl e | Inr d \<Rightarrow> Inr (WNum d))"
| "set_struct_value (WStruct fs) =
     (case set_struct_fields fs of Inl e \<Rightarrow> Inl e | Inr fs' \<Rightarrow> Inr (WStruct fs'))"
| "set_struct_value (WList vs) =
     (case set_list_values vs of Inl e \<Rightarrow> Inl e | Inr vs' \<Rightarrow> Inr (WList vs'))"
| "set_list_values [] = Inr []"
| "set_list_values (v # vs) =
     (case set_struct_value v of
        Inl e \<Rightarrow> Inl e
      | Inr v' \<Rightarrow> (case set_list_values vs of Inl e \<Rightarrow> Inl e | Inr vs' \<Rightarrow> Inr (v' # vs')))"
| "set_struct_fields [] = Inr []"
| "set_struct_fields ((k, v) # fs) =
     (case set_struct_value v of
        Inl e \<Rightarrow> Inl e
      | Inr v' \<Rightarrow>
          (case set_struct_fields fs of Inl e \<Rightarrow> Inl e | Inr fs' \<Rightarrow> Inr ((k, v') # fs')))"
  by pat_completeness auto

termination
  by (relation "measure (\<lambda>x. case x of
        Inl w \<Rightarrow> size w
      | Inr (Inl ws) \<Rightarrow> size_list size ws
      | Inr (Inr fs) \<Rightarrow> size_list (size_prod (\<lambda>_. 0) size) fs)")
    auto

text \<open>
  \<open>serialize_properties\<close>: the loop over the items of \<open>inputs\<close>, with the \<open>Struct\<close> built
  so far and the caller's \<open>property_deps\<close> dict, which the loop assigns to. Each
  property is serialized with a fresh \<open>deps\<close> list.
\<close>

fun serialize_properties_loop ::
  "settings \<Rightarrow> (string \<times> pyval) list \<Rightarrow> (string \<Rightarrow> string) option \<Rightarrow>
     (string \<times> wire) list \<Rightarrow> (string \<times> entity list) list \<Rightarrow>
     error + ((string \<times> wire) list \<times> (string \<times> entity list) list)" where
  "serialize_properties_loop st [] tr struct property_deps = Inr (struct, property_deps)"
| "serialize_properties_loop st ((k, v) # inputs) tr struct property_deps =
     (case serialize_property st v [] tr of
        Inl e \<Rightarrow> Inl e
      | Inr (result, deps) \<Rightarrow>
          if result \<noteq> WNull then
            (let translated_name = transformed tr k
             in case set_struct_value result of
                  Inl e \<Rightarrow> Inl e
                | Inr stored \<Rightarrow>
                    serialize_properties_loop st inputs tr
                      (dict_set struct translated_name stored)
                      (dict_set property_deps translated_name deps))
          else serialize_properties_loop st inputs tr struct property_deps)"

definition serialize_properties ::
  "settings \<Rightarrow> (string \<times> pyval) list \<Rightarrow> (string \<times> entity list) list \<Rightarrow>
     (string \<Rightarrow> string) option \<Rightarrow>
     error + ((string \<times> wire) list \<times> (string \<times> entity list) list)" where
  "serialize_properties st inputs property_deps tr =
     serialize_properties_loop st inputs tr [] property_deps"

subsection \<open>Deserialization\<close>

text \<open>
  Reading a field of a \<open>Struct\<close> gives a Python scalar for a scalar and the protobuf
  object itself for a \<open>ListValue\<close> or a \<open>Struct\<close>.
\<close>

fun struct_value :: "wire \<Rightarrow> pyval" where
  "struct_value WNull = PNone"
| "struct_value (WBool b) = PBool b"
| "struct_value (WNum n) = PNum n"
| "struct_value (WStr s) = PStr s"
| "struct_value (WList vs) = PProto (WList vs)"
| "struct_value (WStruct fs) = PProto (WStruct fs)"

text \<open>
  Modelled from the spec: the constructors of the asset and archive classes
  (\<^verbatim>\<open>pulumi/asset.py\<close>) are collaborators of this module; the spec says of them only
  that an asset or archive is rehydrated from whichever of its alternatives is present.
  Each constructor stores its argument under the attribute of its class.
\<close>

definition FileAsset :: "pyval \<Rightarrow> pyval" where
  "FileAsset path = PAsset (Some path) None None"

definition StringAsset :: "pyval \<Rightarrow> pyval" where
  "StringAsset text = PAsset None (Some text) None"

definition RemoteAsset :: "pyval \<Rightarrow> pyval" where
  "RemoteAsset uri = PAsset None None (Some uri)"

definition AssetArchive :: "pyval \<Rightarrow> pyval" where
  "AssetArchive assets = PArchive (Some assets) None None"

definition FileArchive :: "pyval \<Rightarrow> pyval" where
  "FileArchive path = PArchive None (Some path) None"

definition RemoteArchive :: "pyval \<Rightarrow> pyval" where
  "RemoteArchive uri = PArchive None None (Some uri)"

text \<open>The items of a value that is an instance of \<open>dict\<close>, \<open>None\<close> for any other value.\<close>

fun dict_items :: "pyval \<Rightarrow> (string \<times> pyval) list option" where
  "dict_items (PDict d) = Some d"
| "dict_items (PTyped n d) = Some d"
| "dict_items _ = None"

definition is_rpc_secret :: "pyval \<Rightarrow> bool" where
  "is_rpc_secret v =
     (case dict_items v of
        Some d \<Rightarrow> map_of d special_sig_key = Some (PStr special_secret_sig)
      | None \<Rightarrow> False)"

definition unwrap_rpc_secret :: "pyval \<Rightarrow> error + pyval" where
  "unwrap_rpc_secret v =
     (if is_rpc_secret v then
        (case map_of (the (dict_items v)) ''value'' of
           Some x \<Rightarrow> Inr x
         | None \<Rightarrow> Inl (KeyError ''value''))
      else Inr v)"

text \<open>The secret wrapper the deserializer builds around a payload.\<close>

definition secret_wrapper :: "pyval \<Rightarrow> pyval" where
  "secret_wrapper payload =
     PDict [(special_sig_key, PStr special_secret_sig), (''value'', payload)]"

text \<open>
  The comprehensions \<open>[unwrap_rpc_secret(v) for v in values]\<close> and
  \<open>{k: unwrap_rpc_secret(v) for k, v in props.items()}\<close>; the first exception ends them.
\<close>

fun unwrap_elems :: "pyval list \<Rightarrow> error + pyval list" where
  "unwrap_elems [] = Inr []"
| "unwrap_elems (v # vs) =
     (case unwrap_rpc_secret v of
        Inl e \<Rightarrow> Inl e
      | Inr u \<Rightarrow> (case unwrap_elems vs of Inl e \<Rightarrow> Inl e | Inr us \<Rightarrow> Inr (u # us)))"

fun unwrap_items :: "(string \<times> pyval) list \<Rightarrow> (string \<times> pyval) list \<Rightarrow> error + (string \<times> pyval) list" where
  "unwrap_items [] acc = Inr acc"
| "unwrap_items ((k, v) # items) acc =
     (case unwrap_rpc_secret v of
        Inl e \<Rightarrow> Inl e
      | Inr u \<Rightarrow> unwrap_items items (dict_set acc k u))"

lemma size_map_of_less:
  "map_of kvs k = Some (v :: wire) \<Longrightarrow> size v < size_list (size_prod (\<lambda>_. 0) size) kvs"
  by (induction kvs) (auto split: if_splits)

text \<open>
  \<open>deserialize_properties\<close> and \<open>deserialize_property\<close>, with the loop of the first over
  the items of the \<open>Struct\<close> (\<open>output\<close> the dict built so far) and the comprehension of
  the second over the elements of a \<open>ListValue\<close>. A \<open>Struct\<close> raises \<open>ValueError\<close> when
  a field that is not set is read.
\<close>

function
  deserialize_properties :: "settings \<Rightarrow> (string \<times> wire) list \<Rightarrow> bool option \<Rightarrow> error + pyval" and
  deserialize_property :: "settings \<Rightarrow> wire \<Rightarrow> bool option \<Rightarrow> error + pyval" and
  deserialize_items ::
    "settings \<Rightarrow> (string \<times> wire) list \<Rightarrow> bool option \<Rightarrow> (string \<times> pyval) list \<Rightarrow>
       error + (string \<times> pyval) list" and
  deserialize_elems :: "settings \<Rightarrow> wire list \<Rightarrow> bool option \<Rightarrow> error + pyval list"
where
  "deserialize_properties st props_struct keep_unknowns =
     (case map_of props_struct special_sig_key of
        Some sig \<Rightarrow>
          if sig = WStr special_asset_sig then
            (case map_of props_struct ''path'' of
               Some p \<Rightarrow> Inr (FileAsset (struct_value p))
             | None \<Rightarrow>
            (case map_of props_struct ''text'' of
               Some t \<Rightarrow> Inr (StringAsset (struct_value t))
             | None \<Rightarrow>
            (case map_of props_struct ''uri'' of
               Some u \<Rightarrow> Inr (RemoteAsset (struct_value u))
             | None \<Rightarrow>
                 Inl (AssertionError
                   ''Invalid asset encountered when unmarshalling resource property''))))
          else if sig = WStr special_archive_sig then
            (case map_of props_struct ''assets'' of
               Some a \<Rightarrow>
                 (case deserialize_property st a None of
                    Inl e \<Rightarrow> Inl e
                  | Inr assets \<Rightarrow> Inr (AssetArchive assets))
             | None \<Rightarrow>
            (case map_of props_struct ''path'' of
               Some p \<Rightarrow> Inr (FileArchive (struct_value p))
             | None \<Rightarrow>
            (case map_of props_struct ''uri'' of
               Some u \<Rightarrow> Inr (RemoteArchive (struct_value u))
             | None \<Rightarrow>
                 Inl (AssertionError
                   ''Invalid archive encountered when unmarshalling resource property''))))
          else if sig = WStr special_secret_sig then
            (case map_of props_struct ''value'' of
               Some x \<Rightarrow>
                 (case deserialize_property st x None of
                    Inl e \<Rightarrow> Inl e
                  | Inr v \<Rightarrow> Inr (secret_wrapper v))
             | None \<Rightarrow> Inl (ValueError ''Value not set''))
          else Inl (AssertionError
                 ''Unrecognized signature when unmarshalling resource property'')
      | None \<Rightarrow>
          (case deserialize_items st props_struct keep_unknowns [] of
             Inl e \<Rightarrow> Inl e
           | Inr output \<Rightarrow> Inr (PDict output)))"
| "deserialize_property st (WStr s) keep_unknowns =
     (if s = UNKNOWN then
        Inr (if is_dry_run st \<or> keep_unknowns = Some True then PUnknown else PNone)
      else Inr (PStr s))"
| "deserialize_property st (WList vs) keep_unknowns =
     (case deserialize_elems st vs keep_unknowns of
        Inl e \<Rightarrow> Inl e
      | Inr values \<Rightarrow>
          if list_ex is_rpc_secret values then
            (case unwrap_elems values of
               Inl e \<Rightarrow> Inl e
             | Inr unwrapped \<Rightarrow> Inr (secret_wrapper (PList unwrapped)))
          else Inr (PList values))"
| "deserialize_property st (WStruct fs) keep_unknowns =
     (case deserialize_properties st fs keep_unknowns of
        Inl e \<Rightarrow> Inl e
      | Inr props \<Rightarrow>
          (case dict_items props of
             Some d \<Rightarrow>
               if list_ex (\<lambda>(k, v). is_rpc_secret v) d then
                 (case unwrap_items d [] of
                    Inl e \<Rightarrow> Inl e
                  | Inr unwrapped \<Rightarrow> Inr (secret_wrapper (PDict unwrapped)))
               else Inr props
           | None \<Rightarrow> Inr props))"
| "deserialize_property st WNull keep_unknowns = Inr PNone"
| "deserialize_property st (WBool b) keep_unknowns = Inr (PBool b)"
| "deserialize_property st (WNum n) keep_unknowns = Inr (PNum n)"
| "deserialize_items st [] keep_unknowns output = Inr output"
| "deserialize_items st ((k, v) # items) keep_unknowns output =
     (case deserialize_property st v keep_unknowns of
        Inl e \<Rightarrow> Inl e
      | Inr val \<Rightarrow>
          if val \<noteq> PNone then deserialize_items st items keep_unknowns (dict_set output k val)
          else deserialize_items st items keep_unknowns output)"
| "deserialize_elems st [] keep_unknowns = Inr []"
| "deserialize_elems st (v # vs) keep_unknowns =
     (case deserialize_property st v keep_unknowns of
        Inl e \<Rightarrow> Inl e
      | Inr val \<Rightarrow>
          (case deserialize_elems st vs keep_unknowns of
             Inl e \<Rightarrow> Inl e
           | Inr vals \<Rightarrow> Inr (val # vals)))"
  by pat_completeness auto

termination
  by (relation "measure (\<lambda>x. case x of
        Inl (Inl (st, fs, ku)) \<Rightarrow> 2 * size_list (size_prod (\<lambda>_. 0) size) fs + 1
      | Inl (Inr (st, w, ku)) \<Rightarrow> 2 * size w
      | Inr (Inl (st, fs, ku, out)) \<Rightarrow> 2 * size_list (size_prod (\<lambda>_. 0) size) fs
      | Inr (Inr (st, ws, ku)) \<Rightarrow> 2 * size_list size ws + 1)")
    (auto dest: size_map_of_less)

declare deserialize_properties.simps [simp del]

subsection \<open>Output property slots\<close>

text \<open>
  An \<open>asyncio.Future\<close>: pending, done with a result, or done with an exception.
  \<open>set_result\<close> and \<open>set_exception\<close> raise \<open>InvalidStateError\<close> on a future that is
  done. Awaiting a pending future suspends the reader (\<open>None\<close>); awaiting a done one
  returns its result or raises its exception. When a call raises, the state it leaves
  behind is not part of its result here.
\<close>

datatype 'a future = Pending | Done 'a | Failed error

fun set_result :: "'a future \<Rightarrow> 'a \<Rightarrow> error + 'a future" where
  "set_result Pending v = Inr (Done v)"
| "set_result _ v = Inl InvalidStateError"

fun set_exception :: "'a future \<Rightarrow> error \<Rightarrow> error + 'a future" where
  "set_exception Pending e = Inr (Failed e)"
| "set_exception _ e = Inl InvalidStateError"

fun await :: "'a future \<Rightarrow> (error + 'a) option" where
  "await Pending = None"
| "await (Done v) = Some (Inr v)"
| "await (Failed e) = Some (Inl e)"

text \<open>
  The three futures \<open>transfer_properties\<close> creates for a property. A resolver is
  \<open>do_resolve\<close> bound to them, so the resolvers dict is a dict of slots, and calling
  a resolver changes its own slot. The slots of different names are different objects.
\<close>

record slot =
  value_fut :: "pyval future"
  known_fut :: "bool future"
  secret_fut :: "bool future"

definition new_slot :: slot where
  "new_slot = \<lparr>value_fut = Pending, known_fut = Pending, secret_fut = Pending\<rparr>"

definition do_resolve :: "slot \<Rightarrow> pyval \<Rightarrow> bool \<Rightarrow> bool \<Rightarrow> error option \<Rightarrow> error + slot" where
  "do_resolve s v is_known is_secret failed =
     (case failed of
        Some exn \<Rightarrow>
          (case set_exception (value_fut s) exn of
             Inl e \<Rightarrow> Inl e
           | Inr vf \<Rightarrow>
          (case set_exception (known_fut s) exn of
             Inl e \<Rightarrow> Inl e
           | Inr kf \<Rightarrow>
          (case set_exception (secret_fut s) exn of
             Inl e \<Rightarrow> Inl e
           | Inr sf \<Rightarrow> Inr \<lparr>value_fut = vf, known_fut = kf, secret_fut = sf\<rparr>)))
      | None \<Rightarrow>
          (case set_result (value_fut s) v of
             Inl e \<Rightarrow> Inl e
           | Inr vf \<Rightarrow>
          (case set_result (known_fut s) is_known of
             Inl e \<Rightarrow> Inl e
           | Inr kf \<Rightarrow>
          (case set_result (secret_fut s) is_secret of
             Inl e \<Rightarrow> Inl e
           | Inr sf \<Rightarrow> Inr \<lparr>value_fut = vf, known_fut = kf, secret_fut = sf\<rparr>))))"

text \<open>\<open>transfer_properties\<close>, by the names of \<open>props\<close>: the resolvers dict it returns.\<close>

fun transfer_properties_loop :: "string list \<Rightarrow> (string \<times> slot) list \<Rightarrow> (string \<times> slot) list" where
  "transfer_properties_loop [] resolvers = resolvers"
| "transfer_properties_loop (name # names) resolvers =
     (if name \<in> set [''id'', ''urn''] then transfer_properties_loop names resolvers
      else transfer_properties_loop names (dict_set resolvers name new_slot))"

definition transfer_properties :: "string list \<Rightarrow> (string \<times> slot) list" where
  "transfer_properties names = transfer_properties_loop names []"

subsection \<open>Declared types\<close>

text \<open>
  A type annotation, as far as this module looks at it: \<open>type(None)\<close>, a plain class,
  \<open>Union[...]\<close> with its arguments (\<open>Optional[T]\<close> is \<open>Union[T, None]\<close>), another generic
  alias such as \<open>Dict[...]\<close>, \<open>List[...]\<close> or \<open>Output[...]\<close> with its origin and arguments,
  and a class decorated as an output type, with the name and annotation of each of its
  properties.
\<close>

datatype pytype =
    TNoneType
  | TClass string
  | TUnion "pytype list"
  | TGeneric string "pytype list"
  | TOutputType string "(string \<times> pytype) list"

fun is_optional_type :: "pytype \<Rightarrow> bool" where
  "is_optional_type TNoneType = True"
| "is_optional_type (TUnion args) = list_ex is_optional_type args"
| "is_optional_type _ = False"

fun get_args :: "pytype \<Rightarrow> pytype list" where
  "get_args (TUnion args) = args"
| "get_args (TGeneric origin args) = args"
| "get_args _ = []"

text \<open>
  The unwrapping of an optional type, shared by \<open>translate_output_properties\<close> and the
  \<open>unwrap\<close> of \<open>_output_types\<close>, with its two assertions.
\<close>

definition unwrap_optional :: "pytype \<Rightarrow> error + pytype" where
  "unwrap_optional typ =
     (if is_optional_type typ then
        (let args = get_args typ in
         if length args \<noteq> 2 then Inl (AssertionError [])
         else if args ! 1 \<noteq> TNoneType then Inl (AssertionError [])
         else Inr (args ! 0))
      else Inr typ)"

definition unwrap :: "pytype \<Rightarrow> error + pytype" where
  "unwrap val =
     (case (case val of
              TGeneric origin args \<Rightarrow>
                if origin = ''Output'' then
                  (if length args \<noteq> 1 then Inl (AssertionError []) else Inr (args ! 0))
                else Inr val
            | _ \<Rightarrow> Inr val) of
        Inl e \<Rightarrow> Inl e
      | Inr val' \<Rightarrow> unwrap_optional val')"

text \<open>
  \<open>_output_types\<close> of a class with the given properties: the dict from property name to
  unwrapped annotation. A class that is neither an output type nor a resource class has
  no properties here, and the result is the empty dict.
\<close>

fun output_types_loop ::
  "(string \<times> pytype) list \<Rightarrow> (string \<times> pytype) list \<Rightarrow> error + (string \<times> pytype) list" where
  "output_types_loop [] types = Inr types"
| "output_types_loop ((name, hint) # props) types =
     (case unwrap hint of
        Inl e \<Rightarrow> Inl e
      | Inr t \<Rightarrow> output_types_loop props (dict_set types name t))"

definition output_types :: "(string \<times> pytype) list \<Rightarrow> error + (string \<times> pytype) list" where
  "output_types props = output_types_loop props []"

text \<open>
  The resource, as this module uses it: its \<open>translate_output_property\<close> and the
  properties its class declares.
\<close>

record resource =
  translate_output_property :: "string \<Rightarrow> string"
  declared :: "(string \<times> pytype) list"

lemma size_dict_items_less:
  "dict_items v = Some d \<Longrightarrow> size_list (size_prod (\<lambda>_. 0) size) d < size v"
  by (cases v) auto

text \<open>
  \<open>translate_output_properties\<close>, with its comprehensions over the items of a dict
  (\<open>get_type\<close> the lookup of a key's type, \<open>translated\<close> the dict built so far) and over
  the elements of a list.
\<close>

function
  translate_output_properties :: "resource \<Rightarrow> pyval \<Rightarrow> pytype option \<Rightarrow> error + pyval" and
  translate_items ::
    "resource \<Rightarrow> (string \<times> pyval) list \<Rightarrow> (string \<Rightarrow> pytype option) \<Rightarrow> (string \<times> pyval) list \<Rightarrow>
       error + (string \<times> pyval) list" and
  translate_elems :: "resource \<Rightarrow> pyval list \<Rightarrow> pytype option \<Rightarrow> error + pyval list"
where
  "translate_output_properties res output typ0 =
     (case (case typ0 of
              None \<Rightarrow> Inr None
            | Some t \<Rightarrow> (case unwrap_optional t of Inl e \<Rightarrow> Inl e | Inr t' \<Rightarrow> Inr (Some t'))) of
        Inl e \<Rightarrow> Inl e
      | Inr typ \<Rightarrow>
          (case dict_items output of
             Some d \<Rightarrow>
               (case typ of
                  Some (TOutputType n props) \<Rightarrow>
                    (case output_types props of
                       Inl e \<Rightarrow> Inl e
                     | Inr types \<Rightarrow>
                         (case translate_items res d (map_of types) [] of
                            Inl e \<Rightarrow> Inl e
                          | Inr translated \<Rightarrow> Inr (PTyped n translated)))
                | Some t \<Rightarrow>
                    (let args = get_args t;
                         get_type =
                           (if length args = 2 \<and> args ! 0 = TClass ''str''
                            then (\<lambda>k. Some (args ! 1)) else (\<lambda>k. None))
                     in case translate_items res d get_type [] of
                          Inl e \<Rightarrow> Inl e
                        | Inr translated \<Rightarrow> Inr (PDict translated))
                | None \<Rightarrow>
                    (case translate_items res d (\<lambda>k. None) [] of
                       Inl e \<Rightarrow> Inl e
                     | Inr translated \<Rightarrow> Inr (PDict translated)))
           | None \<Rightarrow>
               (case output of
                  PList elems \<Rightarrow>
                    (let element_type =
                           (case typ of
                              Some t \<Rightarrow>
                                (let args = get_args t
                                 in if length args = 1 then Some (args ! 0) else None)
                            | None \<Rightarrow> None)
                     in case translate_elems res elems element_type of
                          Inl e \<Rightarrow> Inl e
                        | Inr vs \<Rightarrow> Inr (PList vs))
                | _ \<Rightarrow> Inr output)))"
| "translate_items res [] get_type translated = Inr translated"
| "translate_items res ((k, v) # items) get_type translated =
     (case translate_output_properties res v (get_type k) of
        Inl e \<Rightarrow> Inl e
      | Inr v' \<Rightarrow>
          translate_items res items get_type
            (dict_set translated (translate_output_property res k) v'))"
| "translate_elems res [] element_type = Inr []"
| "translate_elems res (v # elems) element_type =
     (case translate_output_properties res v element_type of
        Inl e \<Rightarrow> Inl e
      | Inr v' \<Rightarrow>
          (case translate_elems res elems element_type of
             Inl e \<Rightarrow> Inl e
           | Inr vs \<Rightarrow> Inr (v' # vs)))"
  by pat_completeness auto

termination
  by (relation "measure (\<lambda>x. case x of
        Inl (res, output, typ) \<Rightarrow> size output
      | Inr (Inl (res, items, get_type, translated)) \<Rightarrow>
          size_list (size_prod (\<lambda>_. 0) size) items
      | Inr (Inr (res, elems, typ)) \<Rightarrow> size_list size elems)")
    (auto dest: size_dict_items_less)

declare translate_output_properties.simps [simp del]

subsection \<open>Resolution of the outputs\<close>

text \<open>
  The first loop of \<open>resolve_outputs\<close>, over the items of the deserialized outputs, and
  the second, over the items of the serialized inputs; both assign to
  \<open>all_properties\<close>. \<open>types\<close> is \<open>_output_types(type(res))\<close>.
\<close>

fun outputs_loop ::
  "resource \<Rightarrow> (string \<times> pytype) list \<Rightarrow> (string \<times> pyval) list \<Rightarrow> (string \<times> pyval) list \<Rightarrow>
     error + (string \<times> pyval) list" where
  "outputs_loop res types [] all_properties = Inr all_properties"
| "outputs_loop res types ((key, v) # items) all_properties =
     (let translated_key = translate_output_property res key
      in case translate_output_properties res v (map_of types key) of
           Inl e \<Rightarrow> Inl e
         | Inr translated_value \<Rightarrow>
             outputs_loop res types items (dict_set all_properties translated_key translated_value))"

fun inputs_loop ::
  "settings \<Rightarrow> resource \<Rightarrow> (string \<times> pytype) list \<Rightarrow> (string \<times> wire) list \<Rightarrow>
     (string \<times> pyval) list \<Rightarrow> error + (string \<times> pyval) list" where
  "inputs_loop st res types [] all_properties = Inr all_properties"
| "inputs_loop st res types ((key, v) # items) all_properties =
     (let translated_key = translate_output_property res key
      in if translated_key \<notin> fst ` set all_properties then
           (case deserialize_property st v None of
              Inl e \<Rightarrow> Inl e
            | Inr val \<Rightarrow>
                (case translate_output_properties res val (map_of types key) of
                   Inl e \<Rightarrow> Inl e
                 | Inr translated_value \<Rightarrow>
                     inputs_loop st res types items
                       (dict_set all_properties translated_key translated_value)))
         else inputs_loop st res types items all_properties)"

text \<open>The dict \<open>all_properties\<close> as the first two loops leave it.\<close>

definition combined_properties ::
  "settings \<Rightarrow> resource \<Rightarrow> (string \<times> wire) list \<Rightarrow> (string \<times> wire) list \<Rightarrow>
     error + (string \<times> pyval) list" where
  "combined_properties st res serialized_props outputs =
     (case output_types (declared res) of
        Inl e \<Rightarrow> Inl e
      | Inr types \<Rightarrow>
     (case deserialize_properties st outputs None of
        Inl e \<Rightarrow> Inl e
      | Inr props \<Rightarrow>
     (case dict_items props of
        None \<Rightarrow> Inl (AttributeError ''items'')
      | Some items \<Rightarrow>
     (case outputs_loop res types items [] of
        Inl e \<Rightarrow> Inl e
      | Inr all_properties \<Rightarrow>
          if \<not> is_dry_run st \<or> is_legacy_apply_enabled st
          then inputs_loop st res types serialized_props all_properties
          else Inr all_properties))))"

text \<open>
  The third loop, over the items of \<open>all_properties\<close>: the resolver of each property
  that has one is called with the property's value, a secret wrapper taken off.
\<close>

fun resolve_loop ::
  "settings \<Rightarrow> (string \<times> pyval) list \<Rightarrow> (string \<times> slot) list \<Rightarrow> error + (string \<times> slot) list" where
  "resolve_loop st [] resolvers = Inr resolvers"
| "resolve_loop st ((key, v) # items) resolvers =
     (if key \<in> set [''id'', ''urn''] then resolve_loop st items resolvers
      else
        (case map_of resolvers key of
           None \<Rightarrow> resolve_loop st items resolvers
         | Some resolve \<Rightarrow>
             (case (if is_rpc_secret v then
                      (case map_of (the (dict_items v)) ''value'' of
                         Some x \<Rightarrow> Inr (True, x)
                       | None \<Rightarrow> Inl (KeyError ''value''))
                    else Inr (False, v)) of
                Inl e \<Rightarrow> Inl e
              | Inr (is_secret, val) \<Rightarrow>
                  (case (if \<not> is_dry_run st then do_resolve resolve val True is_secret None
                         else do_resolve resolve val (val \<noteq> PNone) is_secret None) of
                     Inl e \<Rightarrow> Inl e
                   | Inr resolved \<Rightarrow> resolve_loop st items (dict_set resolvers key resolved)))))"

text \<open>
  The last loop, over the items of \<open>resolvers\<close>: each resolver whose key is not in
  \<open>all_properties\<close> is called with \<open>None\<close>.
\<close>

fun resolve_missing ::
  "settings \<Rightarrow> (string \<times> pyval) list \<Rightarrow> (string \<times> slot) list \<Rightarrow> error + (string \<times> slot) list" where
  "resolve_missing st all_properties [] = Inr []"
| "resolve_missing st all_properties ((key, resolve) # resolvers) =
     (case (if key \<notin> fst ` set all_properties
            then do_resolve resolve PNone (\<not> is_dry_run st) False None
            else Inr resolve) of
        Inl e \<Rightarrow> Inl e
      | Inr resolved \<Rightarrow>
          (case resolve_missing st all_properties resolvers of
             Inl e \<Rightarrow> Inl e
           | Inr rest \<Rightarrow> Inr ((key, resolved) # rest)))"

definition resolve_outputs ::
  "settings \<Rightarrow> resource \<Rightarrow> (string \<times> wire) list \<Rightarrow> (string \<times> wire) list \<Rightarrow>
     (string \<times> slot) list \<Rightarrow> error + (string \<times> slot) list" where
  "resolve_outputs st res serialized_props outputs resolvers =
     (case combined_properties st res serialized_props outputs of
        Inl e \<Rightarrow> Inl e
      | Inr all_properties \<Rightarrow>
          (case resolve_loop st all_properties resolvers of
             Inl e \<Rightarrow> Inl e
           | Inr resolvers' \<Rightarrow> resolve_missing st all_properties resolvers'))"

fun resolve_outputs_due_to_exception ::
  "(string \<times> slot) list \<Rightarrow> error \<Rightarrow> error + (string \<times> slot) list" where
  "resolve_outputs_due_to_exception [] exn = Inr []"
| "resolve_outputs_due_to_exception ((key, resolve) # resolvers) exn =
     (case do_resolve resolve PNone False False (Some exn) of
        Inl e \<Rightarrow> Inl e
      | Inr resolved \<Rightarrow>
          (case resolve_outputs_due_to_exception resolvers exn of
             Inl e \<Rightarrow> Inl e
           | Inr rest \<Rightarrow> Inr ((key, resolved) # rest)))"

section \<open>Notions used in the statements\<close>

text \<open>
  The entities a value mentions, at any depth: the resource of every resource reference
  and the resources of every \<open>Output\<close>, through list elements, dict values, the \<open>id\<close> of a
  resource, the result of an awaitable, the future of an \<open>Output\<close> and every attribute
  \<open>path\<close>, \<open>text\<close>, \<open>uri\<close>, \<open>assets\<close> an asset or archive has.
\<close>

fun mentioned :: "pyval \<Rightarrow> entity list" where
  "mentioned (PList vs) = concat (map mentioned vs)"
| "mentioned (PResource r rid) = r # mentioned rid"
| "mentioned (PAsset path text uri) =
     (case path of Some p \<Rightarrow> mentioned p | None \<Rightarrow> [])
     @ (case text of Some t \<Rightarrow> mentioned t | None \<Rightarrow> [])
     @ (case uri of Some u \<Rightarrow> mentioned u | None \<Rightarrow> [])"
| "mentioned (PArchive assets path uri) =
     (case assets of Some a \<Rightarrow> mentioned a | None \<Rightarrow> [])
     @ (case path of Some p \<Rightarrow> mentioned p | None \<Rightarrow> [])
     @ (case uri of Some u \<Rightarrow> mentioned u | None \<Rightarrow> [])"
| "mentioned (PAwaitable v) = mentioned v"
| "mentioned (POutput rs known secret fut) = rs @ mentioned fut"
| "mentioned (PInputType d) = concat (map (\<lambda>kv. mentioned (snd kv)) d)"
| "mentioned (PDict d) = concat (map (\<lambda>kv. mentioned (snd kv)) d)"
| "mentioned (PTyped n d) = concat (map (\<lambda>kv. mentioned (snd kv)) d)"
| "mentioned PNone = []"
| "mentioned (PBool b) = []"
| "mentioned (PNum n) = []"
| "mentioned (PStr s) = []"
| "mentioned PUnknown = []"
| "mentioned (PProto w) = []"
| "mentioned (POther n) = []"

text \<open>
  The values in which no asset or archive, at any depth, has more than one of its
  alternatives.
\<close>

fun single_alternative :: "pyval \<Rightarrow> bool" where
  "single_alternative (PList vs) = list_all single_alternative vs"
| "single_alternative (PResource r rid) = single_alternative rid"
| "single_alternative (PAsset path text uri) =
     (length (filter (\<lambda>a. a \<noteq> None) [path, text, uri]) \<le> 1
      \<and> (case path of Some p \<Rightarrow> single_alternative p | None \<Rightarrow> True)
      \<and> (case text of Some t \<Rightarrow> single_alternative t | None \<Rightarrow> True)
      \<and> (case uri of Some u \<Rightarrow> single_alternative u | None \<Rightarrow> True))"
| "single_alternative (PArchive assets path uri) =
     (length (filter (\<lambda>a. a \<noteq> None) [assets, path, uri]) \<le> 1
      \<and> (case assets of Some a \<Rightarrow> single_alternative a | None \<Rightarrow> True)
      \<and> (case path of Some p \<Rightarrow> single_alternative p | None \<Rightarrow> True)
      \<and> (case uri of Some u \<Rightarrow> single_alternative u | None \<Rightarrow> True))"
| "single_alternative (PAwaitable v) = single_alternative v"
| "single_alternative (POutput rs known secret fut) = single_alternative fut"
| "single_alternative (PInputType d) = list_all (\<lambda>kv. single_alternative (snd kv)) d"
| "single_alternative (PDict d) = list_all (\<lambda>kv. single_alternative (snd kv)) d"
| "single_alternative (PTyped n d) = list_all (\<lambda>kv. single_alternative (snd kv)) d"
| "single_alternative PNone = True"
| "single_alternative (PBool b) = True"
| "single_alternative (PNum n) = True"
| "single_alternative (PStr s) = True"
| "single_alternative PUnknown = True"
| "single_alternative (PProto w) = True"
| "single_alternative (POther n) = True"

text \<open>
  The entities the serializer collects from a value, in the order it meets them: as
  \<open>mentioned\<close>, but of an asset or archive only the first attribute it has among \<open>path\<close>,
  \<open>text\<close>, \<open>uri\<close> (\<open>assets\<close>, \<open>path\<close>, \<open>uri\<close>) is looked into.
\<close>

fun referenced :: "pyval \<Rightarrow> entity list" where
  "referenced (PList vs) = concat (map referenced vs)"
| "referenced (PResource r rid) = r # referenced rid"
| "referenced (PAsset path text uri) =
     (case path of Some p \<Rightarrow> referenced p | None \<Rightarrow>
     (case text of Some t \<Rightarrow> referenced t | None \<Rightarrow>
     (case uri of Some u \<Rightarrow> referenced u | None \<Rightarrow> [])))"
| "referenced (PArchive assets path uri) =
     (case assets of Some a \<Rightarrow> referenced a | None \<Rightarrow>
     (case path of Some p \<Rightarrow> referenced p | None \<Rightarrow>
     (case uri of Some u \<Rightarrow> referenced u | None \<Rightarrow> [])))"
| "referenced (PAwaitable v) = referenced v"
| "referenced (POutput rs known secret fut) = rs @ referenced fut"
| "referenced (PInputType d) = concat (map (\<lambda>kv. referenced (snd kv)) d)"
| "referenced (PDict d) = concat (map (\<lambda>kv. referenced (snd kv)) d)"
| "referenced (PTyped n d) = concat (map (\<lambda>kv. referenced (snd kv)) d)"
| "referenced PNone = []"
| "referenced (PBool b) = []"
| "referenced (PNum n) = []"
| "referenced (PStr s) = []"
| "referenced PUnknown = []"
| "referenced (PProto w) = []"
| "referenced (POther n) = []"

text \<open>The first populated one of a list of named alternatives.\<close>

fun first_populated :: "(string \<times> 'a option) list \<Rightarrow> (string \<times> 'a) option" where
  "first_populated [] = None"
| "first_populated ((n, None) # alts) = first_populated alts"
| "first_populated ((n, Some x) # alts) = Some (n, x)"

text \<open>
  Two runs for the examples: a deployment and a preview, on an engine that accepts
  secrets, without legacy apply.
\<close>

definition deployment :: settings where
  "deployment =
     \<lparr>is_dry_run = False, is_legacy_apply_enabled = False, monitor_supports_secrets = True\<rparr>"

definition preview :: settings where
  "preview =
     \<lparr>is_dry_run = True, is_legacy_apply_enabled = False, monitor_supports_secrets = True\<rparr>"

text \<open>
  A value is well wrapped when, if \<open>is_rpc_secret\<close> holds of it, it is a secret wrapper
  with its payload under \<open>value\<close>.
\<close>

definition well_wrapped :: "pyval \<Rightarrow> bool" where
  "well_wrapped v \<longleftrightarrow> (is_rpc_secret v \<longrightarrow> (\<exists>x. v = secret_wrapper x))"

text \<open>
  The native values built from scalars, lists and dicts only; a dict has each key once.
\<close>

fun plain :: "pyval \<Rightarrow> bool" where
  "plain PNone = True"
| "plain (PBool b) = True"
| "plain (PNum n) = True"
| "plain (PStr s) = True"
| "plain (PList vs) = list_all plain vs"
| "plain (PDict d) = (distinct (map fst d) \<and> list_all (\<lambda>kv. plain (snd kv)) d)"
| "plain _ = False"

text \<open>
  The values that hold neither the string \<open>UNKNOWN\<close> nor a dict with the signature key.
\<close>

fun unreserved :: "pyval \<Rightarrow> bool" where
  "unreserved (PStr s) = (s \<noteq> UNKNOWN)"
| "unreserved (PList vs) = list_all unreserved vs"
| "unreserved (PDict d) =
     (special_sig_key \<notin> fst ` set d \<and> list_all (\<lambda>kv. unreserved (snd kv)) d)"
| "unreserved _ = True"

text \<open>
  A value without the dict entries whose value is \<open>None\<close>, at every depth; list elements
  stay, \<open>None\<close> ones too.
\<close>

fun without_nulls :: "pyval \<Rightarrow> pyval" where
  "without_nulls (PList vs) = PList (map without_nulls vs)"
| "without_nulls (PDict d) =
     PDict (filter (\<lambda>kv. snd kv \<noteq> PNone) (map (\<lambda>kv. (fst kv, without_nulls (snd kv))) d))"
| "without_nulls v = v"

text \<open>The wire value of a plain value.\<close>

fun wire_of :: "pyval \<Rightarrow> wire" where
  "wire_of (PBool b) = WBool b"
| "wire_of (PNum n) = WNum n"
| "wire_of (PStr s) = WStr s"
| "wire_of (PList vs) = WList (map wire_of vs)"
| "wire_of (PDict d) = WStruct (map (\<lambda>kv. (fst kv, wire_of (snd kv))) d)"
| "wire_of _ = WNull"

text \<open>
  A resource for the examples: its class declares no property types and it translates
  every property name to itself.
\<close>

definition untyped_resource :: resource where
  "untyped_resource = \<lparr>translate_output_property = (\<lambda>k. k), declared = []\<rparr>"

text \<open>
  The payload of a secret wrapper, that is of the dict with the signature key set to the
  secret signature and the payload under \<open>value\<close>; \<open>None\<close> for any other value. \<open>stripped\<close>
  is a value with a wrapper around it taken off.
\<close>

fun wrapped_payload :: "pyval \<Rightarrow> pyval option" where
  "wrapped_payload (PDict [(k1, PStr sig), (k2, x)]) =
     (if k1 = special_sig_key \<and> sig = special_secret_sig \<and> k2 = ''value'' then Some x else None)"
| "wrapped_payload _ = None"

definition stripped :: "pyval \<Rightarrow> pyval" where
  "stripped v = (case wrapped_payload v of Some x \<Rightarrow> x | None \<Rightarrow> v)"

text \<open>
  The numbers a double holds exactly, and the values all of whose numbers are such.
\<close>

definition representable :: "int \<Rightarrow> bool" where
  "representable n \<longleftrightarrow> number_value n = Inr n"

fun exact_numbers :: "pyval \<Rightarrow> bool" where
  "exact_numbers (PNum n) = representable n"
| "exact_numbers (PList vs) = list_all exact_numbers vs"
| "exact_numbers (PDict d) = list_all (\<lambda>kv. exact_numbers (snd kv)) d"
| "exact_numbers _ = True"

section \<open>Properties\<close>

subsection \<open>Dicts and the signature constants\<close>

lemma dict_set_map_fst:
  "map fst (dict_set d k v) = (if k \<in> set (map fst d) then map fst d else map fst d @ [k])"
  by (induction d k v rule: dict_set.induct) auto

lemma dict_set_keys: "fst ` set (dict_set d k v) = insert k (fst ` set d)"
proof -
  have "set (map fst (dict_set d k v)) = insert k (set (map fst d))"
    unfolding dict_set_map_fst by auto
  then show ?thesis by simp
qed

lemma dict_set_subset: "set (dict_set d k v) \<subseteq> insert (k, v) (set d)"
  by (induction d k v rule: dict_set.induct) auto

lemma dict_set_values: "snd ` set (dict_set d k v) \<subseteq> insert v (snd ` set d)"
  using dict_set_subset[of d k v] by force

lemma map_of_dict_set: "map_of (dict_set d k v) = (map_of d)(k \<mapsto> v)"
  by (induction d k v rule: dict_set.induct) auto

lemma dict_set_distinct: "distinct (map fst d) \<Longrightarrow> distinct (map fst (dict_set d k v))"
  by (induction d k v rule: dict_set.induct) (auto simp: dict_set_keys)

lemma dict_set_fresh: "k \<notin> fst ` set d \<Longrightarrow> dict_set d k v = d @ [(k, v)]"
  by (induction d k v rule: dict_set.induct) auto

lemma sig_key_fresh [simp]:
  "special_sig_key \<noteq> ''path''" "special_sig_key \<noteq> ''text''" "special_sig_key \<noteq> ''uri''"
  "special_sig_key \<noteq> ''assets''" "special_sig_key \<noteq> ''value''"
  by (simp_all add: special_sig_key_def)

subsection \<open>Serialization\<close>

text \<open>A successful call leaves \<open>deps\<close> extended by exactly the entities the value refers to.\<close>

lemma serialize_deps_exact:
  "\<forall>w d'. serialize_property st v deps tr = Inr (w, d') \<longrightarrow> d' = deps @ referenced v"
  "\<forall>ps d'. serialize_elems st vs deps tr props = Inr (ps, d') \<longrightarrow>
     d' = deps @ concat (map referenced vs)"
  "\<forall>ob d'. serialize_items st kvs b deps tr obj = Inr (ob, d') \<longrightarrow>
     d' = deps @ concat (map (\<lambda>kv. referenced (snd kv)) kvs)"
proof (induction st v deps tr and st vs deps tr props and st kvs b deps tr obj
    rule: serialize_property_serialize_elems_serialize_items.induct)
qed (auto split: sum.splits option.splits if_splits prod.splits simp: Let_def)

lemma loop_drops_null:
  "serialize_property st v [] tr = Inr (WNull, d) \<Longrightarrow>
   serialize_properties_loop st (xs @ (k, v) # ys) tr struct pd =
   serialize_properties_loop st (xs @ ys) tr struct pd"
  by (induction xs arbitrary: struct pd) (auto split: sum.splits simp: Let_def)

lemma items_keys:
  "serialize_items st items b deps tr obj = Inr (obj', deps') \<Longrightarrow>
   fst ` set obj' = fst ` set obj \<union> (\<lambda>k. if b then transformed tr k else k) ` fst ` set items"
proof (induction items arbitrary: deps obj)
  case Nil
  then show ?case by simp
next
  case (Cons kv items)
  obtain k v where kv: "kv = (k, v)" by (cases kv)
  from Cons.prems obtain w d where
    r: "serialize_property st v deps tr = Inr (w, d)"
    by (auto simp: kv Let_def split: sum.splits)
  from Cons.prems r kv have
    "serialize_items st items b d tr (dict_set obj (if b then transformed tr k else k) w)
       = Inr (obj', deps')"
    by (simp add: Let_def)
  from Cons.IH[OF this] show ?case
    unfolding kv by (auto simp: dict_set_keys)
qed

lemma set_struct_value_null:
  "set_struct_value w = Inr w' \<Longrightarrow> (w' = WNull) = (w = WNull)"
  by (cases w) (auto split: sum.splits)

lemma serialize_independent:
  "\<forall>w d d2. serialize_property st v deps tr = Inr (w, d) \<longrightarrow>
     serialize_property st v d2 tr = Inr (w, d2 @ referenced v)"
  "\<forall>ps d d2. serialize_elems st vs deps tr props = Inr (ps, d) \<longrightarrow>
     serialize_elems st vs d2 tr props = Inr (ps, d2 @ concat (map referenced vs))"
  "\<forall>ob d d2. serialize_items st kvs b deps tr obj = Inr (ob, d) \<longrightarrow>
     serialize_items st kvs b d2 tr obj
       = Inr (ob, d2 @ concat (map (\<lambda>kv. referenced (snd kv)) kvs))"
proof (induction st v deps tr and st vs deps tr props and st kvs b deps tr obj
    rule: serialize_property_serialize_elems_serialize_items.induct)
qed (auto split: sum.splits option.splits if_splits prod.splits simp: Let_def)

lemma serialize_property_fresh:
  "serialize_property st v deps tr = Inr (w, d) \<Longrightarrow>
   serialize_property st v [] tr = Inr (w, referenced v)"
  using serialize_independent(1)[of st v deps tr] by auto

text \<open>Under each name, the dict built holds the serialization of the last item of that name.\<close>

lemma items_exact:
  assumes "serialize_items st items b deps tr obj = Inr (obj', deps')"
    and tk: "tk = (\<lambda>k. if b then transformed tr k else k)"
  shows "case map_of (rev (map (\<lambda>kv. (tk (fst kv), snd kv)) items)) name of
      None \<Rightarrow> map_of obj' name = map_of obj name
    | Some v \<Rightarrow> \<exists>r. serialize_property st v [] tr = Inr (r, referenced v)
                   \<and> map_of obj' name = Some r"
  using assms(1)
proof (induction items arbitrary: deps obj)
  case Nil
  then show ?case by simp
next
  case (Cons kv items)
  obtain k v where kv: "kv = (k, v)" by (cases kv)
  let ?later = "map_of (rev (map (\<lambda>kv. (tk (fst kv), snd kv)) items)) name"
  from Cons.prems obtain w d where
    r: "serialize_property st v deps tr = Inr (w, d)"
    by (auto simp: kv Let_def split: sum.splits)
  from Cons.prems r kv have
    l: "serialize_items st items b d tr (dict_set obj (tk k) w) = Inr (obj', deps')"
    by (simp add: Let_def tk)
  note ih = Cons.IH[OF l]
  have first: "serialize_property st v [] tr = Inr (w, referenced v)"
    using r by (rule serialize_property_fresh)
  show ?case
  proof (cases ?later)
    case (Some v')
    with ih show ?thesis by (simp add: kv map_add_def)
  next
    case None
    with ih have o: "map_of obj' name = map_of (dict_set obj (tk k) w) name" by simp
    show ?thesis
    proof (cases "name = tk k")
      case True
      with o None first show ?thesis by (simp add: kv map_of_dict_set map_add_def)
    next
      case False
      with o None show ?thesis by (simp add: kv map_of_dict_set map_add_def)
    qed
  qed
qed

lemma loop_no_null:
  "serialize_properties_loop st inputs tr struct pd = Inr (struct', pd') \<Longrightarrow>
   WNull \<notin> snd ` set struct \<Longrightarrow> WNull \<notin> snd ` set struct'"
proof (induction inputs arbitrary: struct pd)
  case Nil
  then show ?case by simp
next
  case (Cons kv inputs)
  obtain k v where kv: "kv = (k, v)" by (cases kv)
  from Cons.prems(1) obtain result deps where
    r: "serialize_property st v [] tr = Inr (result, deps)"
    by (auto simp: kv split: sum.splits)
  show ?case
  proof (cases "result = WNull")
    case True
    with Cons r kv show ?thesis by simp
  next
    case False
    with Cons.prems(1) r kv obtain stored where
      s: "set_struct_value result = Inr stored" and
      l: "serialize_properties_loop st inputs tr
         (dict_set struct (transformed tr k) stored) (dict_set pd (transformed tr k) deps)
         = Inr (struct', pd')"
      by (auto simp: Let_def split: sum.splits)
    from set_struct_value_null[OF s] False have "stored \<noteq> WNull" by simp
    then have "WNull \<notin> snd ` set (dict_set struct (transformed tr k) stored)"
      using dict_set_values[of struct "transformed tr k" stored] Cons.prems(2) by auto
    with l show ?thesis by (rule Cons.IH)
  qed
qed

lemma loop_untouched:
  "serialize_properties_loop st inputs tr struct pd = Inr (struct', pd') \<Longrightarrow>
   name \<notin> (\<lambda>kv. transformed tr (fst kv)) ` set inputs \<Longrightarrow>
   map_of pd' name = map_of pd name \<and> map_of struct' name = map_of struct name"
proof (induction inputs arbitrary: struct pd)
  case Nil
  then show ?case by simp
next
  case (Cons kv inputs)
  obtain k v where kv: "kv = (k, v)" by (cases kv)
  from Cons.prems(1) obtain result deps where
    r: "serialize_property st v [] tr = Inr (result, deps)"
    by (auto simp: kv split: sum.splits)
  from Cons.prems(2) kv have ne: "name \<noteq> transformed tr k"
    and rest: "name \<notin> (\<lambda>kv. transformed tr (fst kv)) ` set inputs" by auto
  show ?case
  proof (cases "result = WNull")
    case True
    with Cons.prems(1) r kv have
      "serialize_properties_loop st inputs tr struct pd = Inr (struct', pd')" by simp
    from Cons.IH[OF this rest] show ?thesis .
  next
    case False
    with Cons.prems(1) r kv obtain stored where
      "serialize_properties_loop st inputs tr
         (dict_set struct (transformed tr k) stored) (dict_set pd (transformed tr k) deps)
         = Inr (struct', pd')"
      by (auto simp: Let_def split: sum.splits)
    from Cons.IH[OF this rest] ne show ?thesis by (simp add: map_of_dict_set)
  qed
qed

text \<open>
  What the loop of \<open>serialize_properties\<close> leaves under the name of an input, the names
  being different from each other.
\<close>

lemma loop_records:
  "serialize_properties_loop st inputs tr struct pd = Inr (struct', pd') \<Longrightarrow>
   distinct (map (\<lambda>kv. transformed tr (fst kv)) inputs) \<Longrightarrow>
   (k, v) \<in> set inputs \<Longrightarrow>
   \<exists>w. serialize_property st v [] tr = Inr (w, referenced v)
     \<and> (if w = WNull
         then map_of struct' (transformed tr k) = map_of struct (transformed tr k)
            \<and> map_of pd' (transformed tr k) = map_of pd (transformed tr k)
         else (\<exists>stored. set_struct_value w = Inr stored
                 \<and> map_of struct' (transformed tr k) = Some stored)
            \<and> map_of pd' (transformed tr k) = Some (referenced v))"
proof (induction inputs arbitrary: struct pd)
  case Nil
  then show ?case by simp
next
  case (Cons kv inputs)
  obtain k0 v0 where kv: "kv = (k0, v0)" by (cases kv)
  from Cons.prems(1) obtain result deps where
    r: "serialize_property st v0 [] tr = Inr (result, deps)"
    by (auto simp: kv split: sum.splits)
  from serialize_property_fresh[OF r] r have deps: "deps = referenced v0" by simp
  from Cons.prems(2) kv have
    fresh: "transformed tr k0 \<notin> (\<lambda>kv. transformed tr (fst kv)) ` set inputs"
    and d: "distinct (map (\<lambda>kv. transformed tr (fst kv)) inputs)" by auto
  show ?case
  proof (cases "result = WNull")
    case True
    with Cons.prems(1) r kv have
      l: "serialize_properties_loop st inputs tr struct pd = Inr (struct', pd')" by simp
    show ?thesis
    proof (cases "(k, v) = (k0, v0)")
      case same: True
      from loop_untouched[OF l fresh] r True same deps show ?thesis by auto
    next
      case False
      with Cons.prems(3) kv have "(k, v) \<in> set inputs" by auto
      from Cons.IH[OF l d this] show ?thesis .
    qed
  next
    case False
    with Cons.prems(1) r kv obtain stored where
      s: "set_struct_value result = Inr stored" and
      l: "serialize_properties_loop st inputs tr
         (dict_set struct (transformed tr k0) stored) (dict_set pd (transformed tr k0) deps)
         = Inr (struct', pd')"
      by (auto simp: Let_def split: sum.splits)
    show ?thesis
    proof (cases "(k, v) = (k0, v0)")
      case same: True
      from loop_untouched[OF l fresh] r False same deps s show ?thesis
        by (auto simp: map_of_dict_set)
    next
      case diff: False
      with Cons.prems(3) kv have mem: "(k, v) \<in> set inputs" by auto
      then have "transformed tr k \<in> (\<lambda>kv. transformed tr (fst kv)) ` set inputs" by force
      with fresh have ne: "transformed tr k \<noteq> transformed tr k0" by metis
      from Cons.IH[OF l d mem] obtain w where
        w: "serialize_property st v [] tr = Inr (w, referenced v)"
        and c: "if w = WNull
         then map_of struct' (transformed tr k)
                = map_of (dict_set struct (transformed tr k0) stored) (transformed tr k)
            \<and> map_of pd' (transformed tr k)
                = map_of (dict_set pd (transformed tr k0) deps) (transformed tr k)
         else (\<exists>stored. set_struct_value w = Inr stored
                 \<and> map_of struct' (transformed tr k) = Some stored)
            \<and> map_of pd' (transformed tr k) = Some (referenced v)"
        by blast
      show ?thesis
      proof (cases "w = WNull")
        case True
        with w c ne show ?thesis by (simp add: map_of_dict_set)
      next
        case False
        with w c show ?thesis by simp
      qed
    qed
  qed
qed

text \<open>On a value whose assets and archives have one alternative at most, the serializer
  collects every entity the value mentions.\<close>

lemma referenced_mentioned: "single_alternative v \<Longrightarrow> referenced v = mentioned v"
proof (induction v)
  case (PList vs)
  then have "map referenced vs = map mentioned vs" by (auto simp: list_all_iff)
  then show ?case by (simp only: referenced.simps mentioned.simps)
next
  case (PDict d)
  then have "map (\<lambda>kv. referenced (snd kv)) d = map (\<lambda>kv. mentioned (snd kv)) d"
    by (auto simp: list_all_iff snds.simps)
  then show ?case by (simp only: referenced.simps mentioned.simps)
next
  case (PInputType d)
  then have "map (\<lambda>kv. referenced (snd kv)) d = map (\<lambda>kv. mentioned (snd kv)) d"
    by (auto simp: list_all_iff snds.simps)
  then show ?case by (simp only: referenced.simps mentioned.simps)
next
  case (PTyped n d)
  then have "map (\<lambda>kv. referenced (snd kv)) d = map (\<lambda>kv. mentioned (snd kv)) d"
    by (auto simp: list_all_iff snds.simps)
  then show ?case by (simp only: referenced.simps mentioned.simps)
next
  case (PAsset p t u)
  then show ?case by (cases p; cases t; cases u) auto
next
  case (PArchive a p u)
  then show ?case by (cases a; cases p; cases u) auto
qed auto


subsection \<open>Deserialization\<close>

lemma sig_distinct [simp]:
  "special_asset_sig \<noteq> special_archive_sig" "special_asset_sig \<noteq> special_secret_sig"
  "special_archive_sig \<noteq> special_secret_sig" "special_archive_sig \<noteq> special_asset_sig"
  "special_secret_sig \<noteq> special_asset_sig" "special_secret_sig \<noteq> special_archive_sig"
  by (simp_all add: special_asset_sig_def special_archive_sig_def special_secret_sig_def)

lemma deserialize_elems_iff:
  "deserialize_elems st ws keep = Inr vs \<longleftrightarrow>
   list_all2 (\<lambda>w v. deserialize_property st w keep = Inr v) ws vs"
proof (induction ws arbitrary: vs)
  case Nil
  then show ?case by auto
next
  case (Cons w ws)
  show ?case
    by (cases vs) (auto simp flip: Cons.IH split: sum.splits)
qed

lemma unwrap_elems_iff:
  "unwrap_elems vs = Inr us \<longleftrightarrow> list_all2 (\<lambda>v u. unwrap_rpc_secret v = Inr u) vs us"
proof (induction vs arbitrary: us)
  case Nil
  then show ?case by auto
next
  case (Cons v vs)
  show ?case
    by (cases us) (auto simp flip: Cons.IH split: sum.splits)
qed

lemma value_not_sig_key [simp]: "''value'' \<noteq> special_sig_key"
  by (simp add: special_sig_key_def)

lemma is_rpc_secret_wrapper [simp]: "is_rpc_secret (secret_wrapper x)"
  by (simp add: is_rpc_secret_def secret_wrapper_def)

lemma unwrap_secret_wrapper [simp]: "unwrap_rpc_secret (secret_wrapper x) = Inr x"
  by (simp add: unwrap_rpc_secret_def is_rpc_secret_def secret_wrapper_def)

lemma unwrap_not_secret: "\<not> is_rpc_secret v \<Longrightarrow> unwrap_rpc_secret v = Inr v"
  by (simp add: unwrap_rpc_secret_def)

lemma unwrap_none [simp]: "unwrap_rpc_secret PNone = Inr PNone"
  by (simp add: unwrap_rpc_secret_def is_rpc_secret_def)

lemma deserialize_items_keys:
  "deserialize_items st items keep out = Inr out' \<Longrightarrow>
   fst ` set out' \<subseteq> fst ` set out \<union> fst ` set items"
proof (induction items arbitrary: out)
  case Nil
  then show ?case by simp
next
  case (Cons kv items)
  obtain k w where kv: "kv = (k, w)" by (cases kv)
  from Cons.prems obtain v where v: "deserialize_property st w keep = Inr v"
    by (auto simp: kv split: sum.splits)
  show ?case
  proof (cases "v = PNone")
    case True
    with Cons.prems v kv have "deserialize_items st items keep out = Inr out'" by simp
    from Cons.IH[OF this] show ?thesis by auto
  next
    case False
    with Cons.prems v kv have "deserialize_items st items keep (dict_set out k v) = Inr out'"
      by simp
    from Cons.IH[OF this] show ?thesis by (auto simp: dict_set_keys kv)
  qed
qed

lemma well_wrapped_dict_set:
  "\<forall>v\<in>snd ` set d. well_wrapped v \<Longrightarrow> well_wrapped x \<Longrightarrow>
   \<forall>v\<in>snd ` set (dict_set d k x). well_wrapped v"
  using dict_set_subset[of d k x] by fastforce

lemma unwrap_elems_total:
  "list_all well_wrapped vs \<Longrightarrow> \<exists>us. unwrap_elems vs = Inr us"
proof (induction vs)
  case Nil
  then show ?case by simp
next
  case (Cons v vs)
  then obtain us where "unwrap_elems vs = Inr us" by auto
  moreover from Cons.prems obtain u where "unwrap_rpc_secret v = Inr u"
    by (cases "is_rpc_secret v") (auto simp: well_wrapped_def unwrap_not_secret)
  ultimately show ?case by simp
qed

lemma unwrap_items_total:
  "\<forall>v\<in>snd ` set d. well_wrapped v \<Longrightarrow> \<exists>us. unwrap_items d acc = Inr us"
proof (induction d arbitrary: acc)
  case Nil
  then show ?case by simp
next
  case (Cons kv d)
  obtain k v where kv: "kv = (k, v)" by (cases kv)
  from Cons.prems kv obtain u where "unwrap_rpc_secret v = Inr u"
    by (cases "is_rpc_secret v") (auto simp: well_wrapped_def unwrap_not_secret)
  moreover from Cons have "\<exists>us. unwrap_items d (dict_set acc k u) = Inr us" by auto
  ultimately show ?case by (simp add: kv)
qed

lemma deserialize_well_wrapped:
  "\<forall>v. deserialize_properties st fs keep = Inr v \<longrightarrow>
     well_wrapped v \<and> (\<forall>d. v = PDict d \<longrightarrow> (\<forall>x\<in>snd ` set d. well_wrapped x))"
  "\<forall>v. deserialize_property st w keep = Inr v \<longrightarrow> well_wrapped v"
  "\<forall>out'. deserialize_items st items keep out = Inr out' \<longrightarrow>
     (\<forall>v\<in>snd ` set out. well_wrapped v) \<longrightarrow> (\<forall>v\<in>snd ` set out'. well_wrapped v)"
  "\<forall>vs. deserialize_elems st ws keep = Inr vs \<longrightarrow> list_all well_wrapped vs"
proof (induction st fs keep and st w keep and st items keep out and st ws keep
    rule: deserialize_properties_deserialize_property_deserialize_items_deserialize_elems.induct)
  case (1 st props_struct keep_unknowns)
  show ?case
  proof (intro allI impI)
    fix v assume a: "deserialize_properties st props_struct keep_unknowns = Inr v"
    show "well_wrapped v \<and> (\<forall>d. v = PDict d \<longrightarrow> (\<forall>x\<in>snd ` set d. well_wrapped x))"
    proof (cases "map_of props_struct special_sig_key")
      case None
      with a obtain out where
        o: "deserialize_items st props_struct keep_unknowns [] = Inr out" "v = PDict out"
        by (auto simp: deserialize_properties.simps split: sum.splits)
      from deserialize_items_keys[OF o(1)] None have "special_sig_key \<notin> fst ` set out"
        by (auto simp: map_of_eq_None_iff)
      then have "map_of out special_sig_key = None" by (simp add: map_of_eq_None_iff)
      then have "well_wrapped v" using o(2) by (simp add: well_wrapped_def is_rpc_secret_def)
      moreover from "1.IH" None o(1) have "\<forall>x\<in>snd ` set out. well_wrapped x" by simp
      ultimately show ?thesis using o(2) by simp
    next
      case (Some sig)
      show ?thesis
      proof (cases "sig = WStr special_secret_sig")
        case True
        with a Some "1.IH" show ?thesis
          by (auto simp: deserialize_properties.simps
              secret_wrapper_def special_secret_sig_def special_asset_sig_def
              special_archive_sig_def well_wrapped_def is_rpc_secret_def
              split: option.splits sum.splits)
      next
        case False
        with a Some show ?thesis
        by (auto simp: deserialize_properties.simps
            well_wrapped_def is_rpc_secret_def FileAsset_def StringAsset_def
            RemoteAsset_def AssetArchive_def FileArchive_def RemoteArchive_def
            split: if_splits option.splits sum.splits)
      qed
    qed
  qed
next
  case (2 st s keep_unknowns)
  then show ?case by (auto simp: well_wrapped_def is_rpc_secret_def)
next
  case (3 st vs keep_unknowns)
  then show ?case
    by (auto simp: well_wrapped_def is_rpc_secret_def split: sum.splits if_splits)
next
  case (4 st fs keep_unknowns)
  then show ?case
    by (auto simp: well_wrapped_def split: sum.splits if_splits option.splits)
next
  case (9 st k v items keep_unknowns out)
  show ?case
  proof (intro allI impI)
    fix out'
    assume a: "deserialize_items st ((k, v) # items) keep_unknowns out = Inr out'"
      and w: "\<forall>v\<in>snd ` set out. well_wrapped v"
    from a obtain x where x: "deserialize_property st v keep_unknowns = Inr x"
      by (auto split: sum.splits)
    with "9.IH"(1) have wx: "well_wrapped x" by simp
    show "\<forall>v\<in>snd ` set out'. well_wrapped v"
    proof (cases "x = PNone")
      case True
      with a x have "deserialize_items st items keep_unknowns out = Inr out'" by simp
      with "9.IH"(3)[OF x] True w show ?thesis by blast
    next
      case False
      with a x have "deserialize_items st items keep_unknowns (dict_set out k x) = Inr out'"
        by simp
      with "9.IH"(2)[OF x] False well_wrapped_dict_set[OF w wx] show ?thesis by blast
    qed
  qed
qed (auto simp: well_wrapped_def is_rpc_secret_def split: sum.splits)

lemma deserialize_items_entries:
  "list_all2 (\<lambda>f e. fst e = fst f \<and> deserialize_property st (snd f) keep = Inr (snd e)) fs es \<Longrightarrow>
   distinct (map fst fs) \<Longrightarrow> fst ` set fs \<inter> fst ` set out = {} \<Longrightarrow>
   deserialize_items st fs keep out = Inr (out @ filter (\<lambda>e. snd e \<noteq> PNone) es)"
proof (induction fs es arbitrary: out rule: list_all2_induct)
  case Nil
  then show ?case by simp
next
  case (Cons f fs e es)
  obtain k w where f: "f = (k, w)" by (cases f)
  obtain k' v where e: "e = (k', v)" by (cases e)
  from Cons.hyps(1) f e have k: "k' = k" and v: "deserialize_property st w keep = Inr v"
    by auto
  from Cons.prems f have fresh: "k \<notin> fst ` set out" and d: "distinct (map fst fs)"
    and nk: "k \<notin> fst ` set fs" and disj: "fst ` set fs \<inter> fst ` set out = {}"
    by auto
  show ?case
  proof (cases "v = PNone")
    case True
    with Cons.IH[OF d disj] v show ?thesis by (simp add: f e)
  next
    case False
    have "fst ` set fs \<inter> fst ` set (dict_set out k v) = {}"
      using disj nk by (auto simp: dict_set_keys)
    from Cons.IH[OF d this] v False fresh show ?thesis
      by (simp add: f e k dict_set_fresh)
  qed
qed

lemma deserialize_items_members:
  "deserialize_items st fs keep out = Inr out' \<Longrightarrow>
   \<exists>es. list_all2 (\<lambda>f e. fst e = fst f \<and> deserialize_property st (snd f) keep = Inr (snd e)) fs es"
proof (induction fs arbitrary: out)
  case Nil
  then show ?case by simp
next
  case (Cons f fs)
  obtain k w where f: "f = (k, w)" by (cases f)
  from Cons.prems obtain v where v: "deserialize_property st w keep = Inr v"
    by (auto simp: f split: sum.splits)
  from Cons.prems v f obtain out1 where "deserialize_items st fs keep out1 = Inr out'"
    by (cases "v = PNone") auto
  from Cons.IH[OF this] obtain es where
    "list_all2 (\<lambda>f e. fst e = fst f \<and> deserialize_property st (snd f) keep = Inr (snd e)) fs es"
    by blast
  with v f have
    "list_all2 (\<lambda>f e. fst e = fst f \<and> deserialize_property st (snd f) keep = Inr (snd e))
       (f # fs) ((k, v) # es)"
    by simp
  then show ?case by blast
qed

lemma unwrap_items_entries:
  "list_all2 (\<lambda>e u. fst u = fst e \<and> unwrap_rpc_secret (snd e) = Inr (snd u)) d us \<Longrightarrow>
   distinct (map fst d) \<Longrightarrow> fst ` set d \<inter> fst ` set acc = {} \<Longrightarrow>
   unwrap_items d acc = Inr (acc @ us)"
proof (induction d us arbitrary: acc rule: list_all2_induct)
  case Nil
  then show ?case by simp
next
  case (Cons e d u us)
  obtain k v where e: "e = (k, v)" by (cases e)
  obtain k' x where u: "u = (k', x)" by (cases u)
  from Cons.hyps(1) e u have k: "k' = k" and x: "unwrap_rpc_secret v = Inr x" by auto
  from Cons.prems e have fresh: "k \<notin> fst ` set acc" and d: "distinct (map fst d)"
    and nk: "k \<notin> fst ` set d" and disj: "fst ` set d \<inter> fst ` set acc = {}"
    by auto
  have "fst ` set d \<inter> fst ` set (dict_set acc k x) = {}"
    using disj nk by (auto simp: dict_set_keys)
  from Cons.IH[OF d this] x fresh show ?case
    by (simp add: e u k dict_set_fresh)
qed

lemma unwrap_entries_total:
  "\<forall>v\<in>snd ` set d. well_wrapped v \<Longrightarrow>
   \<exists>us. list_all2 (\<lambda>e u. fst u = fst e \<and> unwrap_rpc_secret (snd e) = Inr (snd u)) d us"
proof (induction d)
  case Nil
  then show ?case by simp
next
  case (Cons e d)
  then obtain us where
    us: "list_all2 (\<lambda>e u. fst u = fst e \<and> unwrap_rpc_secret (snd e) = Inr (snd u)) d us"
    by auto
  from Cons.prems obtain x where "unwrap_rpc_secret (snd e) = Inr x"
    by (cases "is_rpc_secret (snd e)") (auto simp: well_wrapped_def unwrap_not_secret)
  with us have
    "list_all2 (\<lambda>e u. fst u = fst e \<and> unwrap_rpc_secret (snd e) = Inr (snd u))
       (e # d) ((fst e, x) # us)"
    by simp
  then show ?case by blast
qed

lemma list_all2_keys:
  "list_all2 R xs ys \<Longrightarrow> (\<And>a b. R a b \<Longrightarrow> fst b = fst a) \<Longrightarrow> map fst ys = map fst xs"
  by (induction xs ys rule: list_all2_induct) auto

lemma entry_of_distinct_key:
  assumes "list_all2 (\<lambda>f e. fst e = fst f \<and> P f e) fs es" "distinct (map fst fs)"
    "f \<in> set fs" "e \<in> set es" "fst e = fst f"
  shows "P f e"
proof -
  from assms(4) obtain j where j: "j < length es" "es ! j = e" by (auto simp: in_set_conv_nth)
  from assms(1) have len: "length fs = length es" by (rule list_all2_lengthD)
  from assms(1) j have p: "fst e = fst (fs ! j) \<and> P (fs ! j) e"
    by (auto simp: list_all2_conv_all_nth)
  from assms(3) obtain i where i: "i < length fs" "fs ! i = f" by (auto simp: in_set_conv_nth)
  from p assms(5) i j len have "map fst fs ! i = map fst fs ! j" by simp
  moreover from i j len have "i < length (map fst fs)" "j < length (map fst fs)" by simp_all
  ultimately have "i = j" using assms(2) nth_eq_iff_index_eq by blast
  with p i show ?thesis by simp
qed

subsection \<open>Plain values\<close>

lemma serialize_elems_plain:
  "(\<And>v. v \<in> set vs \<Longrightarrow> serialize_property st v deps tr = Inr (wire_of v, deps)) \<Longrightarrow>
   serialize_elems st vs deps tr props = Inr (props @ map wire_of vs, deps)"
  by (induction vs arbitrary: props) auto

lemma serialize_items_plain:
  "(\<And>kv. kv \<in> set d \<Longrightarrow> serialize_property st (snd kv) deps None = Inr (wire_of (snd kv), deps)) \<Longrightarrow>
   distinct (map fst d) \<Longrightarrow> fst ` set d \<inter> fst ` set obj = {} \<Longrightarrow>
   serialize_items st d b deps None obj
     = Inr (obj @ map (\<lambda>kv. (fst kv, wire_of (snd kv))) d, deps)"
proof (induction d arbitrary: obj)
  case Nil
  then show ?case by simp
next
  case (Cons kv d)
  obtain k v where kv: "kv = (k, v)" by (cases kv)
  from Cons.prems(1)[of kv] kv have v: "serialize_property st v deps None = Inr (wire_of v, deps)"
    by simp
  from Cons.prems kv have fresh: "k \<notin> fst ` set obj" and dd: "distinct (map fst d)"
    and nk: "k \<notin> fst ` set d" and disj: "fst ` set d \<inter> fst ` set obj = {}"
    by auto
  have "fst ` set d \<inter> fst ` set (dict_set obj k (wire_of v)) = {}"
    using disj nk by (auto simp: dict_set_keys)
  from Cons.IH[OF _ dd this] Cons.prems(1)
  have "serialize_items st d b deps None (dict_set obj k (wire_of v))
      = Inr (dict_set obj k (wire_of v) @ map (\<lambda>kv. (fst kv, wire_of (snd kv))) d, deps)"
    by simp
  moreover have "(if b then transformed None k else k) = k" by simp
  ultimately show ?case using v fresh
    by (simp add: kv dict_set_fresh)
qed

lemma serialize_plain:
  "plain v \<Longrightarrow> serialize_property st v deps None = Inr (wire_of v, deps)"
proof (induction v)
  case (PList vs)
  then have "\<And>v. v \<in> set vs \<Longrightarrow> serialize_property st v deps None = Inr (wire_of v, deps)"
    by (auto simp: list_all_iff)
  from serialize_elems_plain[OF this, of vs "[]"] show ?case by simp
next
  case (PDict d)
  then have "\<And>kv. kv \<in> set d \<Longrightarrow>
      serialize_property st (snd kv) deps None = Inr (wire_of (snd kv), deps)"
    by (auto simp: list_all_iff snds.simps)
  from serialize_items_plain[OF this, of d "[]"] PDict.prems show ?case by simp
qed simp_all

lemma plain_not_secret:
  "plain v \<Longrightarrow> unreserved v \<Longrightarrow> \<not> is_rpc_secret (without_nulls v)"
proof (cases v)
  case (PDict d)
  assume "unreserved v"
  with PDict have "special_sig_key \<notin> fst ` set d" by simp
  then have "special_sig_key \<notin>
      fst ` set (filter (\<lambda>kv. snd kv \<noteq> PNone) (map (\<lambda>kv. (fst kv, without_nulls (snd kv))) d))"
    by force
  then have "map_of (filter (\<lambda>kv. snd kv \<noteq> PNone)
      (map (\<lambda>kv. (fst kv, without_nulls (snd kv))) d)) special_sig_key = None"
    by (simp only: map_of_eq_None_iff not_False_eq_True)
  with PDict show ?thesis by (simp add: is_rpc_secret_def)
qed (simp_all add: is_rpc_secret_def)

lemma deserialize_elems_plain:
  "(\<And>v. v \<in> set vs \<Longrightarrow> deserialize_property st (wire_of v) keep = Inr (without_nulls v)) \<Longrightarrow>
   deserialize_elems st (map wire_of vs) keep = Inr (map without_nulls vs)"
  by (induction vs) auto

lemma deserialize_plain:
  "plain v \<Longrightarrow> unreserved v \<Longrightarrow> deserialize_property st (wire_of v) keep = Inr (without_nulls v)"
proof (induction v)
  case (PList vs)
  then have el: "\<And>v. v \<in> set vs \<Longrightarrow>
      deserialize_property st (wire_of v) keep = Inr (without_nulls v)"
    by (auto simp: list_all_iff)
  from PList.prems have "\<not> list_ex is_rpc_secret (map without_nulls vs)"
    by (auto simp: list_ex_iff list_all_iff plain_not_secret)
  with deserialize_elems_plain[OF el, of vs] show ?case by simp
next
  case (PDict d)
  let ?fs = "map (\<lambda>kv. (fst kv, wire_of (snd kv))) d"
  let ?es = "map (\<lambda>kv. (fst kv, without_nulls (snd kv))) d"
  from PDict have el: "\<And>kv. kv \<in> set d \<Longrightarrow>
      deserialize_property st (wire_of (snd kv)) keep = Inr (without_nulls (snd kv))"
    by (auto simp: list_all_iff snds.simps)
  then have rel: "list_all2 (\<lambda>f e. fst e = fst f \<and>
      deserialize_property st (snd f) keep = Inr (snd e)) ?fs ?es"
    by (simp add: list_all2_map1 list_all2_map2 list_all2_same)
  from PDict.prems have dist: "distinct (map fst ?fs)" by (simp add: comp_def)
  from deserialize_items_entries[OF rel dist, of "[]"]
  have items: "deserialize_items st ?fs keep [] = Inr (filter (\<lambda>e. snd e \<noteq> PNone) ?es)"
    by simp
  from PDict.prems have "special_sig_key \<notin> fst ` set ?fs" by force
  then have nosig: "map_of ?fs special_sig_key = None"
    by (simp only: map_of_eq_None_iff not_False_eq_True)
  with items have props: "deserialize_properties st ?fs keep
      = Inr (PDict (filter (\<lambda>e. snd e \<noteq> PNone) ?es))"
    by (simp add: deserialize_properties.simps)
  from PDict.prems have "\<not> list_ex (\<lambda>(k, v). is_rpc_secret v) (filter (\<lambda>e. snd e \<noteq> PNone) ?es)"
    by (auto simp: list_ex_iff list_all_iff plain_not_secret)
  with props show ?case by simp
qed (simp_all add: UNKNOWN_def)

subsection \<open>Secret wrappers\<close>

lemma wrapped_payload_wrapper [simp]: "wrapped_payload (secret_wrapper x) = Some x"
  by (simp add: secret_wrapper_def)

lemma wrapped_is_secret: "wrapped_payload v = Some x \<Longrightarrow> is_rpc_secret v"
  by (induction v rule: wrapped_payload.induct)
    (auto simp: is_rpc_secret_def split: if_splits)

lemma is_rpc_secret_wrapped:
  "well_wrapped v \<Longrightarrow> is_rpc_secret v \<longleftrightarrow> wrapped_payload v \<noteq> None"
  using wrapped_is_secret[of v] by (auto simp: well_wrapped_def)

lemma unwrap_stripped: "well_wrapped v \<Longrightarrow> unwrap_rpc_secret v = Inr (stripped v)"
proof (cases "is_rpc_secret v")
  case True
  assume "well_wrapped v"
  with True obtain x where "v = secret_wrapper x" by (auto simp: well_wrapped_def)
  then show ?thesis by (simp add: stripped_def)
next
  case False
  with wrapped_is_secret[of v] have "wrapped_payload v = None" by (cases "wrapped_payload v") auto
  with False show ?thesis by (simp add: stripped_def unwrap_not_secret)
qed

lemma unwrap_elems_stripped: "list_all well_wrapped vs \<Longrightarrow> unwrap_elems vs = Inr (map stripped vs)"
  by (induction vs) (auto simp: unwrap_stripped)

lemma list_ex_secret_wrapped:
  "list_all well_wrapped vs \<Longrightarrow>
   list_ex is_rpc_secret vs \<longleftrightarrow> list_ex (\<lambda>v. wrapped_payload v \<noteq> None) vs"
  by (induction vs) (auto simp: is_rpc_secret_wrapped)

subsection \<open>Numbers on the wire\<close>

lemma bit_length_le: "a < 2 ^ k \<Longrightarrow> bit_length a \<le> k"
proof (induction k arbitrary: a)
  case 0
  then show ?case by (simp add: bit_length.simps)
next
  case (Suc k)
  then have "a div 2 < 2 ^ k" by simp
  from Suc.IH[OF this] show ?case by (subst bit_length.simps) simp
qed

lemma bit_length_power: "bit_length (2 ^ k) = Suc k"
proof (induction k)
  case 0
  show ?case by (simp add: bit_length.simps[of "Suc 0"] bit_length.simps[of 0])
next
  case (Suc k)
  then show ?case by (subst bit_length.simps) simp
qed

lemma bit_length_between: "2 ^ k \<le> a \<Longrightarrow> a < 2 ^ Suc k \<Longrightarrow> bit_length a = Suc k"
proof (induction k arbitrary: a)
  case 0
  then have "a = 1" by simp
  then show ?case by (simp add: bit_length.simps[of "Suc 0"] bit_length.simps[of 0])
next
  case (Suc k)
  then have "2 ^ k \<le> a div 2" "a div 2 < 2 ^ Suc k" by simp_all
  from Suc.IH[OF this] have "bit_length (a div 2) = Suc k" .
  moreover from Suc.prems have "a \<noteq> 0" by auto
  ultimately show ?case by (subst bit_length.simps) simp
qed

lemma nearest_double_small: "\<bar>n\<bar> \<le> 2 ^ 53 \<Longrightarrow> nearest_double n = n"
proof (cases "\<bar>n\<bar> = 2 ^ 53")
  case True
  then have a: "nat \<bar>n\<bar> = 2 ^ 53" by (simp add: nat_eq_iff)
  have "bit_length (2 ^ 53) - 53 = 1" unfolding bit_length_power by simp
  with a have "nearest_double n = sgn n * int (2 ^ 53 div 2 * 2)"
    by (simp add: nearest_double_def Let_def)
  also have "\<dots> = sgn n * \<bar>n\<bar>" using True by simp
  finally show ?thesis by (simp add: mult_sgn_abs)
next
  case False
  assume "\<bar>n\<bar> \<le> 2 ^ 53"
  with False have "nat \<bar>n\<bar> < 2 ^ 53" by (simp add: nat_less_iff)
  from bit_length_le[OF this] have "bit_length (nat \<bar>n\<bar>) - 53 = 0" by simp
  then have "nearest_double n = sgn n * int (nat \<bar>n\<bar>)"
    by (simp add: nearest_double_def Let_def)
  then show ?thesis by (simp add: mult_sgn_abs)
qed

lemma representable_small: "\<bar>n\<bar> \<le> 2 ^ 53 \<Longrightarrow> representable n"
proof -
  assume a: "\<bar>n\<bar> \<le> 2 ^ 53"
  have "(2::int) ^ 53 < 2 ^ 1024" by (rule power_strict_increasing) simp_all
  with a have "\<bar>n\<bar> < 2 ^ 1024" by linarith
  with nearest_double_small[OF a] show ?thesis
    by (simp add: representable_def number_value_def Let_def)
qed

lemma set_list_values_exact:
  "(\<And>v. v \<in> set vs \<Longrightarrow> set_struct_value (f v) = Inr (f v)) \<Longrightarrow>
   set_list_values (map f vs) = Inr (map f vs)"
  by (induction vs) auto

lemma set_struct_fields_exact:
  "(\<And>kv. kv \<in> set d \<Longrightarrow> set_struct_value (f (snd kv)) = Inr (f (snd kv))) \<Longrightarrow>
   set_struct_fields (map (\<lambda>kv. (fst kv, f (snd kv))) d) = Inr (map (\<lambda>kv. (fst kv, f (snd kv))) d)"
  by (induction d) auto

lemma set_struct_value_exact:
  "exact_numbers v \<Longrightarrow> set_struct_value (wire_of v) = Inr (wire_of v)"
proof (induction v)
  case (PList vs)
  then have "\<And>v. v \<in> set vs \<Longrightarrow> set_struct_value (wire_of v) = Inr (wire_of v)"
    by (auto simp: list_all_iff)
  from set_list_values_exact[of vs wire_of, OF this] show ?case by simp
next
  case (PDict d)
  then have "\<And>kv. kv \<in> set d \<Longrightarrow> set_struct_value (wire_of (snd kv)) = Inr (wire_of (snd kv))"
    by (auto simp: list_all_iff snds.simps)
  from set_struct_fields_exact[of d wire_of, OF this] show ?case by simp
qed (simp_all add: representable_def)

subsection \<open>Slots and resolution\<close>

lemma do_resolve_new_slot:
  "do_resolve new_slot v k s None = Inr \<lparr>value_fut = Done v, known_fut = Done k, secret_fut = Done s\<rparr>"
  "do_resolve new_slot v k s (Some exn)
     = Inr \<lparr>value_fut = Failed exn, known_fut = Failed exn, secret_fut = Failed exn\<rparr>"
  by (simp_all add: do_resolve_def new_slot_def)

lemma do_resolve_pending:
  "do_resolve r v k s failed = Inr r' \<Longrightarrow> r = new_slot"
  by (cases r; cases "value_fut r"; cases "known_fut r"; cases "secret_fut r"; cases failed)
     (auto simp: do_resolve_def new_slot_def)

lemma do_resolve_poisoned:
  "do_resolve \<lparr>value_fut = Failed exn, known_fut = Failed exn, secret_fut = Failed exn\<rparr>
     v k s failed = Inl InvalidStateError"
  by (cases failed) (simp_all add: do_resolve_def)

lemma poison_all:
  "\<forall>s\<in>snd ` set resolvers. s = new_slot \<Longrightarrow>
   resolve_outputs_due_to_exception resolvers exn
     = Inr (map (\<lambda>kv. (fst kv,
          \<lparr>value_fut = Failed exn, known_fut = Failed exn, secret_fut = Failed exn\<rparr>)) resolvers)"
  by (induction resolvers) (auto simp: do_resolve_new_slot)

lemma due_to_exception_pending:
  "resolve_outputs_due_to_exception rs exn = Inr resolved \<Longrightarrow> \<forall>s\<in>snd ` set rs. s = new_slot"
proof (induction rs arbitrary: resolved)
  case Nil
  then show ?case by simp
next
  case (Cons kv rs)
  obtain k s where kv: "kv = (k, s)" by (cases kv)
  from Cons.prems obtain r rest where
    d: "do_resolve s PNone False False (Some exn) = Inr r"
    and rest: "resolve_outputs_due_to_exception rs exn = Inr rest"
    by (auto simp: kv split: sum.splits)
  from do_resolve_pending[OF d] Cons.IH[OF rest] show ?case by (simp add: kv)
qed

lemma resolve_loop_keys:
  "resolve_loop st items rs = Inr rs' \<Longrightarrow> map fst rs' = map fst rs"
proof (induction st items rs rule: resolve_loop.induct)
  case (1 st resolvers)
  then show ?case by simp
next
  case (2 st key v items resolvers)
  show ?case
  proof (cases "key \<in> set [''id'', ''urn'']")
    case True
    with 2 show ?thesis by simp
  next
    case False
    show ?thesis
    proof (cases "map_of resolvers key")
      case None
      with 2 False show ?thesis by simp
    next
      case (Some resolve)
      then have mem: "key \<in> set (map fst resolvers)"
        by (metis domI dom_map_of_conv_image_fst list.set_map)
      from "2.prems" False Some obtain is_secret val resolved where
        s: "(if is_rpc_secret v then
               (case map_of (the (dict_items v)) ''value'' of
                  Some x \<Rightarrow> Inr (True, x) | None \<Rightarrow> Inl (KeyError ''value''))
             else Inr (False, v)) = Inr (is_secret, val)"
        and d: "(if \<not> is_dry_run st then do_resolve resolve val True is_secret None
                 else do_resolve resolve val (val \<noteq> PNone) is_secret None) = Inr resolved"
        and r: "resolve_loop st items (dict_set resolvers key resolved) = Inr rs'"
        by (auto split: sum.splits prod.splits simp del: set_simps)
      from "2.IH"(3)[OF False Some s _ d] r
      have "map fst rs' = map fst (dict_set resolvers key resolved)" by simp
      with mem show ?thesis by (simp add: dict_set_map_fst)
    qed
  qed
qed

lemma resolve_loop_untouched:
  "resolve_loop st items rs = Inr rs' \<Longrightarrow> key \<notin> fst ` set items \<Longrightarrow>
   map_of rs' key = map_of rs key"
proof (induction st items rs rule: resolve_loop.induct)
  case (1 st resolvers)
  then show ?case by simp
next
  case (2 st k v items resolvers)
  from "2.prems"(2) have ne: "key \<noteq> k" and rest: "key \<notin> fst ` set items" by auto
  show ?case
  proof (cases "k \<in> set [''id'', ''urn'']")
    case True
    with 2 rest show ?thesis by simp
  next
    case False
    show ?thesis
    proof (cases "map_of resolvers k")
      case None
      with 2 False rest show ?thesis by simp
    next
      case (Some resolve)
      from "2.prems"(1) False Some obtain is_secret val resolved where
        s: "(if is_rpc_secret v then
               (case map_of (the (dict_items v)) ''value'' of
                  Some x \<Rightarrow> Inr (True, x) | None \<Rightarrow> Inl (KeyError ''value''))
             else Inr (False, v)) = Inr (is_secret, val)"
        and d: "(if \<not> is_dry_run st then do_resolve resolve val True is_secret None
                 else do_resolve resolve val (val \<noteq> PNone) is_secret None) = Inr resolved"
        and r: "resolve_loop st items (dict_set resolvers k resolved) = Inr rs'"
        by (auto split: sum.splits prod.splits simp del: set_simps)
      from "2.IH"(3)[OF False Some s _ d] r rest
      have "map_of rs' key = map_of (dict_set resolvers k resolved) key" by simp
      with ne show ?thesis by (simp add: map_of_dict_set)
    qed
  qed
qed

lemma resolve_missing_keys:
  "resolve_missing st ap rs = Inr rs' \<Longrightarrow> map fst rs' = map fst rs"
proof (induction rs arbitrary: rs')
  case Nil
  then show ?case by simp
next
  case (Cons kv rs)
  obtain k s where kv: "kv = (k, s)" by (cases kv)
  from Cons.prems obtain resolved rest where
    "resolve_missing st ap rs = Inr rest" "rs' = (k, resolved) # rest"
    by (auto simp: kv split: sum.splits)
  with Cons.IH show ?case by (simp add: kv)
qed

lemma resolve_missing_fulfils:
  "resolve_missing st ap rs = Inr rs' \<Longrightarrow> distinct (map fst rs) \<Longrightarrow>
   (key, s) \<in> set rs \<Longrightarrow> key \<notin> fst ` set ap \<Longrightarrow>
   map_of rs' key
     = Some \<lparr>value_fut = Done PNone, known_fut = Done (\<not> is_dry_run st), secret_fut = Done False\<rparr>"
proof (induction rs arbitrary: rs')
  case Nil
  then show ?case by simp
next
  case (Cons kv rs)
  obtain k r where kv: "kv = (k, r)" by (cases kv)
  from Cons.prems(1) obtain resolved rest where
    d: "(if k \<notin> fst ` set ap then do_resolve r PNone (\<not> is_dry_run st) False None else Inr r)
          = Inr resolved"
    and rest: "resolve_missing st ap rs = Inr rest" and rs': "rs' = (k, resolved) # rest"
    by (auto simp: kv split: sum.splits)
  show ?case
  proof (cases "key = k")
    case True
    with Cons.prems(2,3) kv have "s = r"
      by (auto simp: image_iff)
    from True Cons.prems(4) d have dr: "do_resolve r PNone (\<not> is_dry_run st) False None = Inr resolved"
      by simp
    from do_resolve_pending[OF dr] dr have
      "resolved = \<lparr>value_fut = Done PNone, known_fut = Done (\<not> is_dry_run st), secret_fut = Done False\<rparr>"
      by (simp add: do_resolve_new_slot)
    with True rs' show ?thesis by simp
  next
    case False
    with Cons.prems kv have "(key, s) \<in> set rs" "distinct (map fst rs)" by auto
    from Cons.IH[OF rest this(2) this(1) Cons.prems(4)] False rs' show ?thesis by simp
  qed
qed

lemma resolve_missing_total:
  "\<forall>(k, s) \<in> set rs. k \<notin> fst ` set ap \<longrightarrow> s = new_slot \<Longrightarrow>
   \<exists>rs'. resolve_missing st ap rs = Inr rs'"
proof (induction rs)
  case Nil
  then show ?case by simp
next
  case (Cons kv rs)
  obtain k s where kv: "kv = (k, s)" by (cases kv)
  from Cons obtain rest where "resolve_missing st ap rs = Inr rest" by auto
  moreover from Cons.prems kv have "k \<notin> fst ` set ap \<Longrightarrow> s = new_slot" by auto
  ultimately show ?case by (auto simp: kv do_resolve_new_slot)
qed

lemma inline_unwrap:
  "unwrap_rpc_secret v = Inr x \<Longrightarrow>
   (if is_rpc_secret v then
      (case map_of (the (dict_items v)) ''value'' of
         Some x \<Rightarrow> Inr (True, x) | None \<Rightarrow> Inl (KeyError ''value''))
    else Inr (False, v)) = Inr (is_rpc_secret v, x)"
  by (auto simp: unwrap_rpc_secret_def split: option.splits if_splits)

lemma resolve_loop_total:
  "distinct (map fst items) \<Longrightarrow>
   \<forall>v\<in>snd ` set items. \<exists>x. unwrap_rpc_secret v = Inr x \<Longrightarrow>
   \<forall>k\<in>fst ` set items. \<forall>s. map_of rs k = Some s \<longrightarrow> s = new_slot \<Longrightarrow>
   \<exists>rs'. resolve_loop st items rs = Inr rs'"
proof (induction items arbitrary: rs)
  case Nil
  then show ?case by simp
next
  case (Cons kv items)
  obtain k v where kv: "kv = (k, v)" by (cases kv)
  from Cons.prems kv have d: "distinct (map fst items)" and nk: "k \<notin> fst ` set items"
    and u: "\<forall>v\<in>snd ` set items. \<exists>x. unwrap_rpc_secret v = Inr x"
    by auto
  from Cons.prems(2) kv obtain x where x: "unwrap_rpc_secret v = Inr x" by auto
  have keep: "\<exists>rs'. resolve_loop st items rs = Inr rs'"
    using Cons.IH[OF d u, of rs] Cons.prems(3) by auto
  show ?case
  proof (cases "k \<in> set [''id'', ''urn'']")
    case True
    with keep show ?thesis by (simp add: kv)
  next
    case False
    show ?thesis
    proof (cases "map_of rs k")
      case None
      with keep False show ?thesis by (simp add: kv)
    next
      case (Some resolve)
      with Cons.prems(3) kv have p: "resolve = new_slot" by auto
      let ?known = "if \<not> is_dry_run st then True else x \<noteq> PNone"
      let ?resolved = "\<lparr>value_fut = Done x, known_fut = Done ?known,
          secret_fut = Done (is_rpc_secret v)\<rparr>"
      have "\<forall>k'\<in>fst ` set items. \<forall>s. map_of (dict_set rs k ?resolved) k' = Some s \<longrightarrow> s = new_slot"
        using Cons.prems(3) nk by (auto simp: map_of_dict_set)
      from Cons.IH[OF d u this] obtain rs' where
        "resolve_loop st items (dict_set rs k ?resolved) = Inr rs'" by blast
      with False Some p inline_unwrap[OF x] show ?thesis
        by (cases "is_dry_run st") (simp_all add: kv do_resolve_new_slot del: set_simps)
    qed
  qed
qed

lemma outputs_loop_distinct:
  "outputs_loop res types items ap = Inr ap' \<Longrightarrow> distinct (map fst ap) \<Longrightarrow>
   distinct (map fst ap')"
proof (induction items arbitrary: ap)
  case Nil
  then show ?case by simp
next
  case (Cons kv items)
  obtain k v where kv: "kv = (k, v)" by (cases kv)
  from Cons.prems(1) obtain tv where
    "outputs_loop res types items (dict_set ap (translate_output_property res k) tv) = Inr ap'"
    by (auto simp: kv Let_def split: sum.splits)
  from Cons.IH[OF this] Cons.prems(2) show ?case by (simp add: dict_set_distinct)
qed

lemma inputs_loop_distinct:
  "inputs_loop st res types items ap = Inr ap' \<Longrightarrow> distinct (map fst ap) \<Longrightarrow>
   distinct (map fst ap')"
proof (induction items arbitrary: ap)
  case Nil
  then show ?case by simp
next
  case (Cons kv items)
  obtain k v where kv: "kv = (k, v)" by (cases kv)
  show ?case
  proof (cases "translate_output_property res k \<notin> fst ` set ap")
    case True
    with Cons.prems(1) obtain tv where
      "inputs_loop st res types items (dict_set ap (translate_output_property res k) tv) = Inr ap'"
      by (auto simp: kv Let_def split: sum.splits)
    from Cons.IH[OF this] Cons.prems(2) show ?thesis by (simp add: dict_set_distinct)
  next
    case False
    with Cons.prems(1) have "inputs_loop st res types items ap = Inr ap'"
      by (simp add: kv Let_def)
    from Cons.IH[OF this Cons.prems(2)] show ?thesis .
  qed
qed

lemma combined_properties_distinct:
  "combined_properties st res serialized_props outputs = Inr ap \<Longrightarrow> distinct (map fst ap)"
proof -
  assume a: "combined_properties st res serialized_props outputs = Inr ap"
  then obtain types items ap0 where
    o: "outputs_loop res types items [] = Inr ap0" and
    i: "(if \<not> is_dry_run st \<or> is_legacy_apply_enabled st
         then inputs_loop st res types serialized_props ap0 else Inr ap0) = Inr ap"
    by (auto simp: combined_properties_def split: sum.splits option.splits)
  from outputs_loop_distinct[OF o] have d0: "distinct (map fst ap0)" by simp
  show ?thesis
  proof (cases "\<not> is_dry_run st \<or> is_legacy_apply_enabled st")
    case True
    with i have "inputs_loop st res types serialized_props ap0 = Inr ap" by simp
    from inputs_loop_distinct[OF this d0] show ?thesis .
  next
    case False
    with i d0 show ?thesis by simp
  qed
qed

subsection \<open>Backfill\<close>

lemma translate_string:
  "translate_output_properties res (PStr s) t = Inr v \<Longrightarrow> v = PStr s"
  by (auto simp: translate_output_properties.simps split: sum.splits option.splits)

lemma outputs_loop_keys:
  "outputs_loop res types items ap = Inr ap' \<Longrightarrow>
   fst ` set ap' = fst ` set ap \<union> translate_output_property res ` fst ` set items"
proof (induction items arbitrary: ap)
  case Nil
  then show ?case by simp
next
  case (Cons kv items)
  obtain k v where kv: "kv = (k, v)" by (cases kv)
  from Cons.prems(1) obtain tv where
    "outputs_loop res types items (dict_set ap (translate_output_property res k) tv) = Inr ap'"
    by (auto simp: kv Let_def split: sum.splits)
  from Cons.IH[OF this] show ?case by (auto simp: kv dict_set_keys)
qed

lemma inputs_loop_keeps:
  "inputs_loop st res types sp ap = Inr ap' \<Longrightarrow> x \<in> fst ` set ap \<Longrightarrow>
   map_of ap' x = map_of ap x"
proof (induction sp arbitrary: ap)
  case Nil
  then show ?case by simp
next
  case (Cons kv sp)
  obtain k v where kv: "kv = (k, v)" by (cases kv)
  show ?case
  proof (cases "translate_output_property res k \<notin> fst ` set ap")
    case True
    with Cons.prems(1) obtain tv where
      l: "inputs_loop st res types sp (dict_set ap (translate_output_property res k) tv) = Inr ap'"
      by (auto simp: kv Let_def split: sum.splits)
    from True Cons.prems(2) have ne: "x \<noteq> translate_output_property res k" by blast
    from Cons.prems(2) have "x \<in> fst ` set (dict_set ap (translate_output_property res k) tv)"
      by (simp add: dict_set_keys)
    from Cons.IH[OF l this] ne show ?thesis by (simp add: map_of_dict_set)
  next
    case False
    with Cons.prems(1) have "inputs_loop st res types sp ap = Inr ap'"
      by (simp add: kv Let_def)
    from Cons.IH[OF this Cons.prems(2)] show ?thesis .
  qed
qed

lemma inputs_loop_backfill:
  "inputs_loop st res types sp ap = Inr ap' \<Longrightarrow> x \<notin> fst ` set ap \<Longrightarrow>
   map_of (map (\<lambda>kv. (translate_output_property res (fst kv), snd kv)) sp) x = Some (WStr s) \<Longrightarrow>
   s \<noteq> UNKNOWN \<Longrightarrow> map_of ap' x = Some (PStr s)"
proof (induction sp arbitrary: ap)
  case Nil
  then show ?case by simp
next
  case (Cons kv sp)
  obtain k v where kv: "kv = (k, v)" by (cases kv)
  show ?case
  proof (cases "translate_output_property res k = x")
    case True
    with Cons.prems(3) kv have v: "v = WStr s" by simp
    with Cons.prems(4) have d: "deserialize_property st v None = Inr (PStr s)" by simp
    from Cons.prems(1,2) True d obtain tv where
      t: "translate_output_properties res (PStr s) (map_of types k) = Inr tv" and
      l: "inputs_loop st res types sp (dict_set ap x tv) = Inr ap'"
      by (auto simp: kv Let_def split: sum.splits)
    from translate_string[OF t] have tv: "tv = PStr s" .
    have "x \<in> fst ` set (dict_set ap x tv)" by (simp add: dict_set_keys)
    from inputs_loop_keeps[OF l this] tv show ?thesis by (simp add: map_of_dict_set)
  next
    case False
    with Cons.prems(3) kv have
      m: "map_of (map (\<lambda>kv. (translate_output_property res (fst kv), snd kv)) sp) x
            = Some (WStr s)"
      by simp
    show ?thesis
    proof (cases "translate_output_property res k \<notin> fst ` set ap")
      case True
      with Cons.prems(1) obtain tv where
        l: "inputs_loop st res types sp (dict_set ap (translate_output_property res k) tv)
              = Inr ap'"
        by (auto simp: kv Let_def split: sum.splits)
      from False Cons.prems(2) have
        "x \<notin> fst ` set (dict_set ap (translate_output_property res k) tv)"
        by (auto simp: dict_set_keys)
      from Cons.IH[OF l this m Cons.prems(4)] show ?thesis .
    next
      case inside: False
      with Cons.prems(1) have "inputs_loop st res types sp ap = Inr ap'"
        by (simp add: kv Let_def)
      from Cons.IH[OF this Cons.prems(2) m Cons.prems(4)] show ?thesis .
    qed
  qed
qed

lemma resolve_loop_fulfils:
  "resolve_loop st items rs = Inr rs' \<Longrightarrow> distinct (map fst items) \<Longrightarrow>
   (key, v) \<in> set items \<Longrightarrow> key \<notin> set [''id'', ''urn''] \<Longrightarrow> key \<in> fst ` set rs \<Longrightarrow>
   \<not> is_rpc_secret v \<Longrightarrow>
   map_of rs' key
     = Some \<lparr>value_fut = Done v, known_fut = Done (\<not> is_dry_run st \<or> v \<noteq> PNone),
             secret_fut = Done False\<rparr>"
proof (induction items arbitrary: rs)
  case Nil
  then show ?case by simp
next
  case (Cons kv items)
  obtain k v0 where kv: "kv = (k, v0)" by (cases kv)
  from Cons.prems(2) kv have d: "distinct (map fst items)" and nk: "k \<notin> fst ` set items"
    by auto
  show ?case
  proof (cases "k = key")
    case True
    with Cons.prems(3) nk kv have v0: "v0 = v" by force
    from Cons.prems(5) obtain resolve where r: "map_of rs key = Some resolve"
      by (cases "map_of rs key") (auto simp: map_of_eq_None_iff)
    let ?known = "\<not> is_dry_run st \<or> v \<noteq> PNone"
    from Cons.prems(1,4,6) True v0 r obtain resolved where
      dr: "do_resolve resolve v ?known False None = Inr resolved" and
      l: "resolve_loop st items (dict_set rs key resolved) = Inr rs'"
      by (cases "is_dry_run st") (auto simp: kv split: sum.splits simp del: set_simps)
    from do_resolve_pending[OF dr] dr have
      "resolved = \<lparr>value_fut = Done v, known_fut = Done ?known, secret_fut = Done False\<rparr>"
      by (simp add: do_resolve_new_slot)
    moreover from True nk have "key \<notin> fst ` set items" by simp
    from resolve_loop_untouched[OF l this] have "map_of rs' key = Some resolved"
      by (simp add: map_of_dict_set)
    ultimately show ?thesis by simp
  next
    case False
    with Cons.prems(3) kv have mem: "(key, v) \<in> set items" by auto
    from Cons.prems(1) kv obtain rs1 where
      l: "resolve_loop st items rs1 = Inr rs'" and
      k1: "fst ` set rs \<subseteq> fst ` set rs1"
    proof (cases "k \<in> set [''id'', ''urn'']")
      case True
      with Cons.prems(1) kv that[of rs] show ?thesis by simp
    next
      case notid: False
      show ?thesis
      proof (cases "map_of rs k")
        case None
        with Cons.prems(1) kv notid that[of rs] show ?thesis by simp
      next
        case (Some resolve)
        with Cons.prems(1) kv notid obtain resolved where
          "resolve_loop st items (dict_set rs k resolved) = Inr rs'"
          by (auto split: sum.splits if_splits prod.splits simp del: set_simps)
        with that[of "dict_set rs k resolved"] show ?thesis by (auto simp: dict_set_keys)
      qed
    qed
    from Cons.prems(5) k1 have "key \<in> fst ` set rs1" by blast
    from Cons.IH[OF l d mem Cons.prems(4) this Cons.prems(6)] show ?thesis .
  qed
qed

lemma resolve_missing_keeps:
  "resolve_missing st ap rs = Inr rs' \<Longrightarrow> key \<in> fst ` set ap \<Longrightarrow>
   map_of rs' key = map_of rs key"
proof (induction rs arbitrary: rs')
  case Nil
  then show ?case by simp
next
  case (Cons kv rs)
  obtain k r where kv: "kv = (k, r)" by (cases kv)
  from Cons.prems(1) obtain resolved rest where
    d: "(if k \<notin> fst ` set ap then do_resolve r PNone (\<not> is_dry_run st) False None else Inr r)
          = Inr resolved"
    and m: "resolve_missing st ap rs = Inr rest" and rs': "rs' = (k, resolved) # rest"
    by (auto simp: kv split: sum.splits)
  show ?case
  proof (cases "k = key")
    case True
    with d Cons.prems(2) have "resolved = r" by simp
    with True rs' show ?thesis by (simp add: kv)
  next
    case False
    with Cons.IH[OF m Cons.prems(2)] rs' show ?thesis by (simp add: kv)
  qed
qed
subsection \<open>Null results of the serializer\<close>

text \<open>
  Against C1 for nested dicts: a dict nested in a property keeps an entry whose value
  serializes to \<open>None\<close>. The property \<open>p = {"a": None}\<close> goes on the wire as a \<open>Struct\<close>
  with the null field \<open>a\<close>.
\<close>

theorem nested_null_entry_kept:
  "serialize_properties deployment [(''p'', PDict [(''a'', PNone)])] [] None
     = Inr ([(''p'', WStruct [(''a'', WNull)])], [(''p'', [])])"
  by (simp add: serialize_properties_def deployment_def Let_def)

text \<open>
  C1, as the code has it. A top-level property whose value serializes to \<open>None\<close> is
  treated as if it were not among the inputs, wherever it stands, and no field of the
  \<open>Struct\<close> that \<open>serialize_properties\<close> returns is null; the names of the inputs being
  different from each other, the \<open>Struct\<close> has no field for a property that serializes
  to \<open>None\<close>, and for any other property it holds the serialization under the
  property's name, as a \<open>Struct\<close> stores it. A dict serialized by \<open>serialize_property\<close>
  has a key for every one of its entries, the transformed key of the entry; under each
  key it holds the serialization, \<open>None\<close> included, of the last entry that has this
  transformed key.
\<close>

theorem null_dropped_at_top_level_only:
  "(serialize_property st v [] tr = Inr (WNull, d) \<longrightarrow>
      serialize_properties st (xs @ (k, v) # ys) pd tr = serialize_properties st (xs @ ys) pd tr)
   \<and> (serialize_properties st inputs pd tr = Inr (struct, pd') \<longrightarrow> WNull \<notin> snd ` set struct)
   \<and> (serialize_properties st inputs [] tr = Inr (struct, pd')
       \<and> distinct (map (\<lambda>kv. transformed tr (fst kv)) inputs) \<and> (k', x) \<in> set inputs \<longrightarrow>
        (\<exists>r ds. serialize_property st x [] tr = Inr (r, ds)
           \<and> (if r = WNull then map_of struct (transformed tr k') = None
               else \<exists>stored. set_struct_value r = Inr stored
                      \<and> map_of struct (transformed tr k') = Some stored)))
   \<and> (serialize_property st (PDict items) deps tr = Inr (w, deps') \<longrightarrow>
        (\<exists>obj. w = WStruct obj \<and> fst ` set obj = transformed tr ` fst ` set items
           \<and> (\<forall>name y. map_of (rev (map (\<lambda>kv. (transformed tr (fst kv), snd kv)) items)) name
                          = Some y \<longrightarrow>
                (\<exists>r ds. serialize_property st y [] tr = Inr (r, ds)
                   \<and> map_of obj name = Some r))))"
proof (intro conjI impI)
  assume "serialize_property st v [] tr = Inr (WNull, d)"
  then show "serialize_properties st (xs @ (k, v) # ys) pd tr
      = serialize_properties st (xs @ ys) pd tr"
    unfolding serialize_properties_def by (rule loop_drops_null)
next
  assume "serialize_properties st inputs pd tr = Inr (struct, pd')"
  then show "WNull \<notin> snd ` set struct"
    unfolding serialize_properties_def using loop_no_null by fastforce
next
  assume a: "serialize_properties st inputs [] tr = Inr (struct, pd')
       \<and> distinct (map (\<lambda>kv. transformed tr (fst kv)) inputs) \<and> (k', x) \<in> set inputs"
  then have l: "serialize_properties_loop st inputs tr [] [] = Inr (struct, pd')"
    by (simp add: serialize_properties_def)
  from a have d: "distinct (map (\<lambda>kv. transformed tr (fst kv)) inputs)"
    and m: "(k', x) \<in> set inputs" by simp_all
  from loop_records[OF l d m] obtain r where
    r: "serialize_property st x [] tr = Inr (r, referenced x)"
    and c: "if r = WNull
         then map_of struct (transformed tr k') = map_of [] (transformed tr k')
            \<and> map_of pd' (transformed tr k') = map_of [] (transformed tr k')
         else (\<exists>stored. set_struct_value r = Inr stored
                 \<and> map_of struct (transformed tr k') = Some stored)
            \<and> map_of pd' (transformed tr k') = Some (referenced x)"
    by blast
  from c have "if r = WNull then map_of struct (transformed tr k') = None
               else \<exists>stored. set_struct_value r = Inr stored
                      \<and> map_of struct (transformed tr k') = Some stored"
    by (cases "r = WNull") simp_all
  with r show "\<exists>r ds. serialize_property st x [] tr = Inr (r, ds)
           \<and> (if r = WNull then map_of struct (transformed tr k') = None
               else \<exists>stored. set_struct_value r = Inr stored
                      \<and> map_of struct (transformed tr k') = Some stored)"
    by blast
next
  assume "serialize_property st (PDict items) deps tr = Inr (w, deps')"
  then obtain obj where
    o: "serialize_items st items True deps tr [] = Inr (obj, deps')" "w = WStruct obj"
    by (auto split: sum.splits)
  from items_keys[OF o(1)] have keys: "fst ` set obj = transformed tr ` fst ` set items"
    by auto
  have "\<forall>name y. map_of (rev (map (\<lambda>kv. (transformed tr (fst kv), snd kv)) items)) name
                          = Some y \<longrightarrow>
                (\<exists>r ds. serialize_property st y [] tr = Inr (r, ds)
                   \<and> map_of obj name = Some r)"
  proof (intro allI impI)
    fix name y
    assume "map_of (rev (map (\<lambda>kv. (transformed tr (fst kv), snd kv)) items)) name = Some y"
    with items_exact[OF o(1), of "transformed tr" name]
    show "\<exists>r ds. serialize_property st y [] tr = Inr (r, ds) \<and> map_of obj name = Some r"
      by auto
  qed
  with keys o(2)
  show "\<exists>obj. w = WStruct obj \<and> fst ` set obj = transformed tr ` fst ` set items
           \<and> (\<forall>name y. map_of (rev (map (\<lambda>kv. (transformed tr (fst kv), snd kv)) items)) name
                          = Some y \<longrightarrow>
                (\<exists>r ds. serialize_property st y [] tr = Inr (r, ds)
                   \<and> map_of obj name = Some r))"
    by blast
qed

theorem null_dropped_at_top_level_only_witness:
  "serialize_properties deployment ([(''a'', PStr ''x'')] @ (''b'', PNone) # []) []
       (Some (\<lambda>k. if k = ''A'' then ''a'' else k))
     = serialize_properties deployment ([(''a'', PStr ''x'')] @ []) []
         (Some (\<lambda>k. if k = ''A'' then ''a'' else k))
   \<and> serialize_properties deployment [(''a'', PStr ''x''), (''b'', PNone)] []
       (Some (\<lambda>k. if k = ''A'' then ''a'' else k))
        = Inr ([(''a'', WStr ''x'')], [(''a'', [])])
   \<and> WNull \<notin> snd ` set [(''a'', WStr ''x'')]
   \<and> map_of [(''a'', WStr ''x'')]
        (transformed (Some (\<lambda>k. if k = ''A'' then ''a'' else k)) ''b'') = None
   \<and> serialize_property deployment (PDict [(''A'', PNone), (''c'', PNone), (''a'', PNum 1)]) []
       (Some (\<lambda>k. if k = ''A'' then ''a'' else k))
        = Inr (WStruct [(''a'', WNum 1), (''c'', WNull)], [])
   \<and> map_of (rev (map (\<lambda>kv. (transformed (Some (\<lambda>k. if k = ''A'' then ''a'' else k)) (fst kv),
                                snd kv))
                    [(''A'', PNone), (''c'', PNone), (''a'', PNum 1)])) ''c'' = Some PNone
   \<and> map_of [(''a'', WNum 1), (''c'', WNull)] ''c'' = Some WNull"
  using null_dropped_at_top_level_only
    [of deployment PNone "(Some (\<lambda>k. if k = ''A'' then ''a'' else k))" "[]"
      "[(''a'', PStr ''x'')]" "''b''" "[]" "[]"
      "[(''a'', PStr ''x''), (''b'', PNone)]" "[(''a'', WStr ''x'')]" "[(''a'', [])]"
      "''b''" PNone
      "[(''A'', PNone), (''c'', PNone), (''a'', PNum 1)]" "[]"
      "WStruct [(''a'', WNum 1), (''c'', WNull)]" "[]"]
  by (simp add: serialize_properties_def deployment_def Let_def)

subsection \<open>The not-yet-known sentinel\<close>

text \<open>
  Against C2 for every underlying value: the value of an \<open>Output\<close> is serialized before
  its \<open>_is_known\<close> is looked at, so an unknown \<open>Output\<close> whose future completes with a
  tuple raises \<open>ValueError\<close>.
\<close>

theorem unknown_output_of_illegal_value_raises:
  "serialize_property deployment (POutput [] False False (PAwaitable (POther ''tuple''))) [] None
     = Inl (ValueError ''unexpected input of type tuple'')"
  by simp

text \<open>
  C2, as the code has it. When the value of an \<open>Output\<close> that is not known serializes
  without an exception, whatever the result, \<open>serialize_property\<close> returns \<open>UNKNOWN\<close>.
  \<open>deserialize_property\<close> turns \<open>UNKNOWN\<close> into an \<open>Unknown\<close> in a dry run or when
  \<open>keep_unknowns\<close> is set, and into \<open>None\<close> otherwise.
\<close>

theorem unknown_output_sentinel:
  "(serialize_property st fut (deps @ rs) tr = Inr (v, deps') \<longrightarrow>
      serialize_property st (POutput rs False secret fut) deps tr = Inr (WStr UNKNOWN, deps'))
   \<and> deserialize_property st (WStr UNKNOWN) keep_unknowns =
        Inr (if is_dry_run st \<or> keep_unknowns = Some True then PUnknown else PNone)"
  by simp

theorem unknown_output_sentinel_witness:
  "serialize_property deployment (PAwaitable (PStr ''v'')) ([] @ [''r'']) None
     = Inr (WStr ''v'', [''r''])
   \<and> serialize_property deployment (POutput [''r''] False True (PAwaitable (PStr ''v''))) [] None
       = Inr (WStr UNKNOWN, [''r''])
   \<and> deserialize_property deployment (WStr UNKNOWN) None = Inr PNone
   \<and> deserialize_property preview (WStr UNKNOWN) None = Inr PUnknown
   \<and> deserialize_property deployment (WStr UNKNOWN) (Some True) = Inr PUnknown"
  using
    unknown_output_sentinel
      [of deployment "PAwaitable (PStr ''v'')" "[]" "[''r'']" None "WStr ''v''" "[''r'']" True None]
    unknown_output_sentinel [of preview _ _ _ _ _ _ _ None]
    unknown_output_sentinel [of deployment _ _ _ _ _ _ _ "Some True"]
  by (simp add: deployment_def preview_def)

subsection \<open>Assets and archives\<close>

text \<open>
  Against C3 for more than one alternative: an asset with both \<open>path\<close> and \<open>text\<close> is
  serialized as a file asset; the call does not fail.
\<close>

theorem asset_with_two_alternatives_serializes:
  "serialize_property deployment
     (PAsset (Some (PStr ''a.txt'')) (Some (PStr ''hello'')) None) [] None
     = Inr (WStruct [(special_sig_key, WStr special_asset_sig), (''path'', WStr ''a.txt'')], [])"
  by simp

text \<open>
  C3, as the code has it. An asset or archive with none of its alternatives raises
  \<open>AssertionError\<close>. With one or more, the first in the order \<open>path\<close>, \<open>text\<close>, \<open>uri\<close>
  (\<open>assets\<close>, \<open>path\<close>, \<open>uri\<close> for an archive) is serialized next to the signature and the
  others are not looked at; the call then fails only if serializing that one does.
\<close>

theorem asset_archive_first_alternative:
  "serialize_property st (PAsset path text uri) deps tr =
     (case first_populated [(''path'', path), (''text'', text), (''uri'', uri)] of
        None \<Rightarrow> Inl (AssertionError ''unknown asset type'')
      | Some (name, x) \<Rightarrow>
          (case serialize_property st x deps tr of
             Inl e \<Rightarrow> Inl e
           | Inr (w, deps') \<Rightarrow>
               Inr (WStruct [(special_sig_key, WStr special_asset_sig), (name, w)], deps')))
   \<and> serialize_property st (PArchive assets path' uri') deps tr =
     (case first_populated [(''assets'', assets), (''path'', path'), (''uri'', uri')] of
        None \<Rightarrow> Inl (AssertionError ''unknown archive type'')
      | Some (name, x) \<Rightarrow>
          (case serialize_property st x deps tr of
             Inl e \<Rightarrow> Inl e
           | Inr (w, deps') \<Rightarrow>
               Inr (WStruct [(special_sig_key, WStr special_archive_sig), (name, w)], deps')))"
  by (cases path; cases "text"; cases uri; cases assets; cases path'; cases uri')
     (simp_all split: sum.splits)

theorem asset_archive_first_alternative_witness:
  "serialize_property deployment (PAsset None None None) [] None
     = Inl (AssertionError ''unknown asset type'')
   \<and> serialize_property deployment (PArchive None None None) [] None
     = Inl (AssertionError ''unknown archive type'')
   \<and> serialize_property deployment (PAsset None (Some (PStr ''hello'')) (Some (PStr ''u''))) [] None
     = Inr (WStruct [(special_sig_key, WStr special_asset_sig), (''text'', WStr ''hello'')], [])
   \<and> serialize_property deployment
       (PArchive (Some (PDict [(''f'', PAsset (Some (PStr ''a.txt'')) None None)])) None None) [] None
     = Inr (WStruct [(special_sig_key, WStr special_archive_sig),
                     (''assets'', WStruct [(''f'',
                        WStruct [(special_sig_key, WStr special_asset_sig),
                                 (''path'', WStr ''a.txt'')])])], [])"
  using asset_archive_first_alternative [of deployment None None None "[]" None None None None]
    asset_archive_first_alternative
      [of deployment None "Some (PStr ''hello'')" "Some (PStr ''u'')" "[]" None
        "Some (PDict [(''f'', PAsset (Some (PStr ''a.txt'')) None None)])" None None]
  by simp
subsection \<open>Dependencies\<close>

text \<open>
  Against C4 for every graph: an asset with a \<open>path\<close> and with a \<open>text\<close> that is an output
  of the resource \<open>r\<close> is serialized by its \<open>path\<close>; the \<open>text\<close> is not looked at, and \<open>r\<close>
  is not among the dependencies.
\<close>

theorem later_alternative_dependency_omitted:
  "serialize_property deployment
     (PAsset (Some (PStr ''a.txt'')) (Some (POutput [''r''] True False (PStr ''content''))) None)
     [] None
     = Inr (WStruct [(special_sig_key, WStr special_asset_sig), (''path'', WStr ''a.txt'')], [])
   \<and> mentioned
       (PAsset (Some (PStr ''a.txt'')) (Some (POutput [''r''] True False (PStr ''content''))) None)
     = [''r'']"
  by simp

text \<open>
  C4, as the code has it. When \<open>serialize_property\<close> returns, the \<open>deps\<close> list holds what
  it held before, followed by the entities the serializer collects from the value. For a
  value in which every asset and archive has one alternative at most, these are all the
  entities the value mentions, at any depth: none is left out. And for every input
  property of \<open>serialize_properties\<close> that is such a value (the transformed names of the
  inputs being different from each other), the \<open>property_deps\<close> hold under the
  property's name the list of the entities its value mentions, unless the property
  serializes to \<open>None\<close>: then it is dropped, and \<open>property_deps\<close> have no entry for it.
\<close>

theorem dependencies_complete:
  "(serialize_property st v deps tr = Inr (w, deps') \<longrightarrow>
      deps' = deps @ referenced v
      \<and> (single_alternative v \<longrightarrow> deps' = deps @ mentioned v \<and> set (mentioned v) \<subseteq> set deps'))
   \<and> (serialize_properties st inputs [] tr = Inr (struct, property_deps)
       \<and> distinct (map (\<lambda>kv. transformed tr (fst kv)) inputs)
       \<and> (k, x) \<in> set inputs \<and> single_alternative x \<longrightarrow>
      (\<exists>r. serialize_property st x [] tr = Inr (r, mentioned x)
         \<and> map_of property_deps (transformed tr k)
             = (if r = WNull then None else Some (mentioned x))))"
proof (intro conjI impI)
  assume a: "serialize_property st v deps tr = Inr (w, deps')"
  with serialize_deps_exact(1)[of st v deps tr] show e: "deps' = deps @ referenced v" by simp
  assume s: "single_alternative v"
  from e referenced_mentioned[OF s] show "deps' = deps @ mentioned v" by simp
  then show "set (mentioned v) \<subseteq> set deps'" by simp
next
  assume a: "serialize_properties st inputs [] tr = Inr (struct, property_deps)
       \<and> distinct (map (\<lambda>kv. transformed tr (fst kv)) inputs)
       \<and> (k, x) \<in> set inputs \<and> single_alternative x"
  then have l: "serialize_properties_loop st inputs tr [] [] = Inr (struct, property_deps)"
    by (simp add: serialize_properties_def)
  from a have d: "distinct (map (\<lambda>kv. transformed tr (fst kv)) inputs)"
    and m: "(k, x) \<in> set inputs" and s: "single_alternative x" by simp_all
  from loop_records[OF l d m] obtain r where
    r: "serialize_property st x [] tr = Inr (r, referenced x)"
    and c: "if r = WNull
         then map_of struct (transformed tr k) = map_of [] (transformed tr k)
            \<and> map_of property_deps (transformed tr k) = map_of [] (transformed tr k)
         else (\<exists>stored. set_struct_value r = Inr stored
                 \<and> map_of struct (transformed tr k) = Some stored)
            \<and> map_of property_deps (transformed tr k) = Some (referenced x)"
    by blast
  from c have "map_of property_deps (transformed tr k)
      = (if r = WNull then None else Some (referenced x))"
    by (cases "r = WNull") simp_all
  with r referenced_mentioned[OF s]
  show "\<exists>r. serialize_property st x [] tr = Inr (r, mentioned x)
         \<and> map_of property_deps (transformed tr k)
             = (if r = WNull then None else Some (mentioned x))"
    by auto
qed

theorem dependencies_complete_witness:
  "serialize_property deployment
     (PDict [(''a'', PList [PResource ''r1'' (PStr ''id1'')]),
             (''b'', PAsset None (Some (POutput [''r2''] True False
                        (PAwaitable (PResource ''r3'' PNone)))) None),
             (''c'', PArchive (Some (PDict [(''f'', PInputType [(''g'', PResource ''r4'' PNone)])]))
                        None None)])
     [''r0''] None
   = Inr (WStruct [(''a'', WList [WStr ''id1'']),
                   (''b'', WStruct [(special_sig_key, WStr special_asset_sig), (''text'', WNull)]),
                   (''c'', WStruct [(special_sig_key, WStr special_archive_sig),
                                    (''assets'', WStruct [(''f'', WStruct [(''g'', WNull)])])])],
          [''r0'', ''r1'', ''r2'', ''r3'', ''r4''])
   \<and> single_alternative
     (PDict [(''a'', PList [PResource ''r1'' (PStr ''id1'')]),
             (''b'', PAsset None (Some (POutput [''r2''] True False
                        (PAwaitable (PResource ''r3'' PNone)))) None),
             (''c'', PArchive (Some (PDict [(''f'', PInputType [(''g'', PResource ''r4'' PNone)])]))
                        None None)])
   \<and> mentioned
     (PDict [(''a'', PList [PResource ''r1'' (PStr ''id1'')]),
             (''b'', PAsset None (Some (POutput [''r2''] True False
                        (PAwaitable (PResource ''r3'' PNone)))) None),
             (''c'', PArchive (Some (PDict [(''f'', PInputType [(''g'', PResource ''r4'' PNone)])]))
                        None None)]) = [''r1'', ''r2'', ''r3'', ''r4'']
   \<and> serialize_properties deployment
       [(''p'', PList [PResource ''r1'' (PStr ''id1''), POutput [''r2''] False False (PAwaitable PNone)]),
        (''q'', PNone)] [] None
     = Inr ([(''p'', WList [WStr ''id1'', WStr UNKNOWN])], [(''p'', [''r1'', ''r2''])])
   \<and> single_alternative
       (PList [PResource ''r1'' (PStr ''id1''), POutput [''r2''] False False (PAwaitable PNone)])
   \<and> serialize_property deployment
       (PList [PResource ''r1'' (PStr ''id1''), POutput [''r2''] False False (PAwaitable PNone)]) [] None
     = Inr (WList [WStr ''id1'', WStr UNKNOWN], [''r1'', ''r2''])
   \<and> mentioned
       (PList [PResource ''r1'' (PStr ''id1''), POutput [''r2''] False False (PAwaitable PNone)]) = [''r1'', ''r2'']
   \<and> map_of [(''p'', [''r1'', ''r2''])] (transformed None ''p'') = Some [''r1'', ''r2'']"
  using dependencies_complete
    [of deployment
      "PDict [(''a'', PList [PResource ''r1'' (PStr ''id1'')]),
             (''b'', PAsset None (Some (POutput [''r2''] True False
                        (PAwaitable (PResource ''r3'' PNone)))) None),
             (''c'', PArchive (Some (PDict [(''f'', PInputType [(''g'', PResource ''r4'' PNone)])]))
                        None None)]"
      "[''r0'']" None
      "WStruct [(''a'', WList [WStr ''id1'']),
                   (''b'', WStruct [(special_sig_key, WStr special_asset_sig), (''text'', WNull)]),
                   (''c'', WStruct [(special_sig_key, WStr special_archive_sig),
                                    (''assets'', WStruct [(''f'', WStruct [(''g'', WNull)])])])]"
      "[''r0'', ''r1'', ''r2'', ''r3'', ''r4'']"
      "[(''p'', PList [PResource ''r1'' (PStr ''id1''), POutput [''r2''] False False (PAwaitable PNone)]),
        (''q'', PNone)]"
      "[(''p'', WList [WStr ''id1'', WStr UNKNOWN])]" "[(''p'', [''r1'', ''r2''])]"
      "''p''"
      "PList [PResource ''r1'' (PStr ''id1''), POutput [''r2''] False False (PAwaitable PNone)]"]
  by (simp add: deployment_def serialize_properties_def Let_def)
subsection \<open>Secret bubbling\<close>

text \<open>
  C5. When the members of a \<open>ListValue\<close> deserialize to \<open>vs\<close> and one of them is a secret
  wrapper, \<open>deserialize_property\<close> returns one secret wrapper, the dict of the signature
  key with the secret signature and of \<open>value\<close>, whose payload is the list of the members
  in their order, a member that is a wrapper replaced by its payload and every other
  member as it is. When the fields of a \<open>Struct\<close> without the signature key deserialize
  to the entries \<open>es\<close> and one of them is a secret wrapper, it returns one secret wrapper
  whose payload is the dict of the entries that are not \<open>None\<close>, under their keys and in
  their order, a wrapper replaced by its payload and every other value as it is; that
  dict is not itself a wrapper.
\<close>

theorem secret_bubbles_up:
  "(list_all2 (\<lambda>w v. deserialize_property st w keep = Inr v) ws vs
      \<and> list_ex (\<lambda>v. wrapped_payload v \<noteq> None) vs \<longrightarrow>
      deserialize_property st (WList ws) keep
        = Inr (PDict [(special_sig_key, PStr special_secret_sig),
                      (''value'', PList (map stripped vs))]))
   \<and> (map_of fs special_sig_key = None \<and> distinct (map fst fs)
       \<and> list_all2 (\<lambda>f e. fst e = fst f \<and> deserialize_property st (snd f) keep = Inr (snd e)) fs es
       \<and> list_ex (\<lambda>e. wrapped_payload (snd e) \<noteq> None) es \<longrightarrow>
      deserialize_property st (WStruct fs) keep
        = Inr (PDict [(special_sig_key, PStr special_secret_sig),
                      (''value'', PDict (map (\<lambda>e. (fst e, stripped (snd e)))
                                          (filter (\<lambda>e. snd e \<noteq> PNone) es)))])
      \<and> wrapped_payload (PDict (map (\<lambda>e. (fst e, stripped (snd e)))
                                  (filter (\<lambda>e. snd e \<noteq> PNone) es))) = None)"
proof (intro conjI impI)
  assume a: "list_all2 (\<lambda>w v. deserialize_property st w keep = Inr v) ws vs
      \<and> list_ex (\<lambda>v. wrapped_payload v \<noteq> None) vs"
  then have e: "deserialize_elems st ws keep = Inr vs" by (simp add: deserialize_elems_iff)
  with deserialize_well_wrapped(4)[of st ws keep] have ww: "list_all well_wrapped vs" by simp
  from a list_ex_secret_wrapped[OF ww] have "list_ex is_rpc_secret vs" by simp
  with e unwrap_elems_stripped[OF ww]
  show "deserialize_property st (WList ws) keep
        = Inr (PDict [(special_sig_key, PStr special_secret_sig),
                      (''value'', PList (map stripped vs))])"
    by (simp add: secret_wrapper_def)
next
  let ?kept = "filter (\<lambda>e. snd e \<noteq> PNone) es"
  let ?us = "map (\<lambda>e. (fst e, stripped (snd e))) ?kept"
  assume a: "map_of fs special_sig_key = None \<and> distinct (map fst fs)
       \<and> list_all2 (\<lambda>f e. fst e = fst f \<and> deserialize_property st (snd f) keep = Inr (snd e)) fs es
       \<and> list_ex (\<lambda>e. wrapped_payload (snd e) \<noteq> None) es"
  then have items: "deserialize_items st fs keep [] = Inr ?kept"
    using deserialize_items_entries[of st keep fs es "[]"] by simp
  with a have props: "deserialize_properties st fs keep = Inr (PDict ?kept)"
    by (simp add: deserialize_properties.simps)
  from a have
    "list_all2 (\<lambda>f e. fst e = fst f \<and> deserialize_property st (snd f) keep = Inr (snd e)) fs es"
    by simp
  then have keys: "map fst es = map fst fs" by (rule list_all2_keys) simp
  have dk: "distinct (map fst ?kept)"
    using a keys by (simp add: distinct_map_filter)
  from deserialize_well_wrapped(1)[of st fs keep] props
  have ww: "\<forall>v\<in>snd ` set ?kept. well_wrapped v" by auto
  then have "list_all2 (\<lambda>e u. fst u = fst e \<and> unwrap_rpc_secret (snd e) = Inr (snd u)) ?kept ?us"
    by (auto simp: list_all2_map2 list_all2_same unwrap_stripped)
  from unwrap_items_entries[OF this dk] have ui: "unwrap_items ?kept [] = Inr ?us" by simp
  from a obtain e where e: "e \<in> set es" "wrapped_payload (snd e) \<noteq> None"
    by (auto simp: list_ex_iff)
  then have ne: "snd e \<noteq> PNone" by auto
  with e have k: "e \<in> set ?kept" by simp
  then have "snd e \<in> snd ` set ?kept" by (rule imageI)
  with ww have "well_wrapped (snd e)" by blast
  with e have "is_rpc_secret (snd e)" by (simp add: is_rpc_secret_wrapped)
  with k have "e \<in> set ?kept \<and> (case e of (k, v) \<Rightarrow> is_rpc_secret v)" by (cases e) auto
  then have sec: "list_ex (\<lambda>(k, v). is_rpc_secret v) ?kept"
    unfolding list_ex_iff by blast
  from props sec ui
  show "deserialize_property st (WStruct fs) keep
        = Inr (PDict [(special_sig_key, PStr special_secret_sig), (''value'', PDict ?us)])"
    by (simp add: secret_wrapper_def)
  have "fst ` set ?us = fst ` set ?kept" by force
  also have "\<dots> \<subseteq> fst ` set es" by auto
  also have "fst ` set es = fst ` set fs" using keys by (metis list.set_map)
  finally have sub: "fst ` set ?us \<subseteq> fst ` set fs" .
  from a have "special_sig_key \<notin> fst ` set fs" by (simp add: map_of_eq_None_iff)
  with sub have nk: "special_sig_key \<notin> fst ` set ?us" by blast
  show "wrapped_payload (PDict ?us) = None"
  proof (cases "wrapped_payload (PDict ?us)")
    case (Some x)
    from wrapped_is_secret[OF this] have "map_of ?us special_sig_key \<noteq> None"
      by (simp add: is_rpc_secret_def)
    with nk show ?thesis by (simp add: map_of_eq_None_iff)
  qed simp
qed

theorem secret_bubbles_up_witness:
  "list_all2 (\<lambda>w v. deserialize_property deployment w None = Inr v)
     [WNum 1, WStruct [(special_sig_key, WStr special_secret_sig), (''value'', WStr ''s'')], WNull]
     [PNum 1, PDict [(special_sig_key, PStr special_secret_sig), (''value'', PStr ''s'')], PNone]
   \<and> deserialize_property deployment
       (WList [WNum 1, WStruct [(special_sig_key, WStr special_secret_sig), (''value'', WStr ''s'')],
               WNull]) None
       = Inr (PDict [(special_sig_key, PStr special_secret_sig),
                     (''value'', PList [PNum 1, PStr ''s'', PNone])])
   \<and> deserialize_property deployment
       (WList [WList [WStruct [(special_sig_key, WStr special_secret_sig), (''value'', WStr ''s'')]]])
       None
       = Inr (PDict [(special_sig_key, PStr special_secret_sig),
                     (''value'', PList [PList [PStr ''s'']])])
   \<and> map_of [(''a'', WNull),
              (''b'', WStruct [(special_sig_key, WStr special_secret_sig), (''value'', WStr ''s'')]),
              (''c'', WNum 3)] special_sig_key = None
   \<and> deserialize_property deployment
       (WStruct [(''a'', WNull),
                 (''b'', WStruct [(special_sig_key, WStr special_secret_sig), (''value'', WStr ''s'')]),
                 (''c'', WNum 3)]) None
       = Inr (PDict [(special_sig_key, PStr special_secret_sig),
                     (''value'', PDict [(''b'', PStr ''s''), (''c'', PNum 3)])])"
  using secret_bubbles_up
    [of deployment None
      "[WNum 1, WStruct [(special_sig_key, WStr special_secret_sig), (''value'', WStr ''s'')], WNull]"
      "[PNum 1, PDict [(special_sig_key, PStr special_secret_sig), (''value'', PStr ''s'')], PNone]"
      "[(''a'', WNull),
        (''b'', WStruct [(special_sig_key, WStr special_secret_sig), (''value'', WStr ''s'')]),
        (''c'', WNum 3)]"
      "[(''a'', PNone), (''b'', PDict [(special_sig_key, PStr special_secret_sig), (''value'', PStr ''s'')]),
        (''c'', PNum 3)]"]
  by (simp add: deserialize_properties.simps UNKNOWN_def secret_wrapper_def is_rpc_secret_def
      unwrap_rpc_secret_def special_sig_key_def stripped_def)
subsection \<open>Round trip\<close>

text \<open>
  Against C6 for every plain value: the string \<open>UNKNOWN\<close> is a plain value; it goes on the
  wire as it is and comes back as \<open>None\<close>. A dict with the signature key is a plain value;
  it goes on the wire as it is and its deserialization raises. The number \<open>2 ^ 53 + 1\<close> is a
  plain value without reserved parts; the \<open>Struct\<close> stores it as the double \<open>2 ^ 53\<close>, and
  that is what comes back.
\<close>

theorem reserved_values_and_inexact_numbers_do_not_round_trip:
  "plain (PStr UNKNOWN)
   \<and> serialize_property deployment (PStr UNKNOWN) [] None = Inr (WStr UNKNOWN, [])
   \<and> set_struct_value (WStr UNKNOWN) = Inr (WStr UNKNOWN)
   \<and> deserialize_property deployment (WStr UNKNOWN) None = Inr PNone
   \<and> plain (PDict [(special_sig_key, PStr ''x'')])
   \<and> serialize_property deployment (PDict [(special_sig_key, PStr ''x'')]) [] None
       = Inr (WStruct [(special_sig_key, WStr ''x'')], [])
   \<and> set_struct_value (WStruct [(special_sig_key, WStr ''x'')])
       = Inr (WStruct [(special_sig_key, WStr ''x'')])
   \<and> deserialize_property deployment (WStruct [(special_sig_key, WStr ''x'')]) None
       = Inl (AssertionError ''Unrecognized signature when unmarshalling resource property'')
   \<and> plain (PNum 9007199254740993) \<and> unreserved (PNum 9007199254740993)
   \<and> serialize_property deployment (PNum 9007199254740993) [] None
       = Inr (WNum 9007199254740993, [])
   \<and> set_struct_value (WNum 9007199254740993) = Inr (WNum 9007199254740992)
   \<and> deserialize_property deployment (WNum 9007199254740992) None
       = Inr (PNum 9007199254740992)"
proof -
  have "nat \<bar>9007199254740993 :: int\<bar> = 2 ^ 53 + 1" by simp
  moreover have "bit_length (2 ^ 53 + 1) = Suc 53"
    by (rule bit_length_between) simp_all
  ultimately have "nearest_double 9007199254740993 = 9007199254740992"
    by (simp add: nearest_double_def Let_def)
  then have "set_struct_value (WNum 9007199254740993) = Inr (WNum 9007199254740992)"
    by (simp add: number_value_def Let_def)
  then show ?thesis
    by (simp add: deployment_def deserialize_properties.simps special_asset_sig_def
      special_archive_sig_def special_secret_sig_def)
qed

text \<open>
  C6, as the code has it. A plain value that holds neither the string \<open>UNKNOWN\<close> nor a dict
  with the signature key, and whose numbers are all held exactly by a double, serialized
  without a key transformer, leaves \<open>deps\<close> as it was; its serialization is stored in a
  \<open>Struct\<close>, and what is stored deserializes to the value without the dict entries that
  are \<open>None\<close>; the elements of its lists all stay in place. The integers up to \<open>2 ^ 53\<close> in
  magnitude are held exactly.
\<close>

theorem plain_round_trip:
  "(plain v \<and> unreserved v \<and> exact_numbers v \<longrightarrow>
      (\<exists>w stored. serialize_property st v deps None = Inr (w, deps)
         \<and> set_struct_value w = Inr stored
         \<and> deserialize_property st' stored keep = Inr (without_nulls v)))
   \<and> (\<bar>n\<bar> \<le> 2 ^ 53 \<longrightarrow> exact_numbers (PNum n))"
  using serialize_plain[of v st deps] deserialize_plain[of v st' keep]
    set_struct_value_exact[of v] representable_small[of n]
  by auto

theorem plain_round_trip_witness:
  "plain (PDict [(''a'', PStr ''hello''), (''b'', PList [PNum 1, PNone, PNum (- 3)]), (''c'', PNone)])
   \<and> unreserved
       (PDict [(''a'', PStr ''hello''), (''b'', PList [PNum 1, PNone, PNum (- 3)]), (''c'', PNone)])
   \<and> exact_numbers
       (PDict [(''a'', PStr ''hello''), (''b'', PList [PNum 1, PNone, PNum (- 3)]), (''c'', PNone)])
   \<and> (\<exists>w stored. serialize_property deployment
             (PDict [(''a'', PStr ''hello''), (''b'', PList [PNum 1, PNone, PNum (- 3)]), (''c'', PNone)])
             [] None = Inr (w, [])
          \<and> set_struct_value w = Inr stored
          \<and> deserialize_property preview stored None
              = Inr (PDict [(''a'', PStr ''hello''), (''b'', PList [PNum 1, PNone, PNum (- 3)])]))
   \<and> exact_numbers (PNum 9007199254740992)"
  using plain_round_trip
    [of "PDict [(''a'', PStr ''hello''), (''b'', PList [PNum 1, PNone, PNum (- 3)]), (''c'', PNone)]"
      deployment "[]" preview None 9007199254740992]
    representable_small[of 1] representable_small[of "- 3"]
  by (simp add: UNKNOWN_def special_sig_key_def)
subsection \<open>Backfill from the inputs in a preview\<close>

text \<open>
  C7. In a dry run with legacy apply enabled, let the deserialized outputs of the engine
  hold no property whose translated name is \<open>x\<close>, whatever else they hold, and let the
  first of the serialized inputs whose translated name is \<open>x\<close> hold the string \<open>s\<close>, which
  is not the string \<open>UNKNOWN\<close>; \<open>x\<close> is neither \<open>id\<close> nor \<open>urn\<close> and has a resolver. Then,
  when \<open>resolve_outputs\<close> returns, the second loop has put \<open>s\<close> under \<open>x\<close> into
  \<open>all_properties\<close>, and the slot of \<open>x\<close> holds the value \<open>s\<close>, known and not secret. And
  \<open>resolve_outputs\<close> does return when \<open>all_properties\<close> is built without an exception, every
  secret wrapper in it has its \<open>value\<close>, and the futures of the resolvers are all pending.
\<close>

theorem backfill_in_preview:
  "(is_dry_run st \<and> is_legacy_apply_enabled st
    \<and> deserialize_properties st outputs None = Inr props \<and> dict_items props = Some items
    \<and> x \<notin> translate_output_property res ` fst ` set items
    \<and> map_of (map (\<lambda>kv. (translate_output_property res (fst kv), snd kv)) serialized_props) x
        = Some (WStr s)
    \<and> s \<noteq> UNKNOWN \<and> x \<notin> set [''id'', ''urn'']
    \<and> distinct (map fst resolvers) \<and> x \<in> fst ` set resolvers
    \<and> resolve_outputs st res serialized_props outputs resolvers = Inr resolvers' \<longrightarrow>
      (\<exists>all_properties. combined_properties st res serialized_props outputs = Inr all_properties
          \<and> map_of all_properties x = Some (PStr s))
      \<and> map_of resolvers' x
          = Some \<lparr>value_fut = Done (PStr s), known_fut = Done True, secret_fut = Done False\<rparr>)
   \<and> (combined_properties st res serialized_props outputs = Inr all_properties
    \<and> (\<forall>v\<in>snd ` set all_properties. \<exists>y. unwrap_rpc_secret v = Inr y)
    \<and> distinct (map fst resolvers) \<and> (\<forall>r\<in>snd ` set resolvers. r = new_slot) \<longrightarrow>
      (\<exists>resolvers'. resolve_outputs st res serialized_props outputs resolvers = Inr resolvers'))"
proof (intro conjI impI)
  assume a: "is_dry_run st \<and> is_legacy_apply_enabled st
    \<and> deserialize_properties st outputs None = Inr props \<and> dict_items props = Some items
    \<and> x \<notin> translate_output_property res ` fst ` set items
    \<and> map_of (map (\<lambda>kv. (translate_output_property res (fst kv), snd kv)) serialized_props) x
        = Some (WStr s)
    \<and> s \<noteq> UNKNOWN \<and> x \<notin> set [''id'', ''urn'']
    \<and> distinct (map fst resolvers) \<and> x \<in> fst ` set resolvers
    \<and> resolve_outputs st res serialized_props outputs resolvers = Inr resolvers'"
  then obtain ap rs1 where
    c: "combined_properties st res serialized_props outputs = Inr ap" and
    l: "resolve_loop st ap resolvers = Inr rs1" and
    m: "resolve_missing st ap rs1 = Inr resolvers'"
    by (auto simp: resolve_outputs_def split: sum.splits)
  from c a obtain types ap0 where
    o: "outputs_loop res types items [] = Inr ap0" and
    i: "inputs_loop st res types serialized_props ap0 = Inr ap"
    by (auto simp: combined_properties_def split: sum.splits)
  from outputs_loop_keys[OF o] a have "x \<notin> fst ` set ap0" by simp
  from inputs_loop_backfill[OF i this] a have x: "map_of ap x = Some (PStr s)" by simp
  with c show "\<exists>all_properties. combined_properties st res serialized_props outputs
      = Inr all_properties \<and> map_of all_properties x = Some (PStr s)"
    by blast
  from x have mem: "(x, PStr s) \<in> set ap" by (rule map_of_SomeD)
  have ns: "\<not> is_rpc_secret (PStr s)" by (simp add: is_rpc_secret_def)
  from a have nid: "x \<notin> set [''id'', ''urn'']" and xr: "x \<in> fst ` set resolvers" by simp_all
  from resolve_loop_fulfils[OF l combined_properties_distinct[OF c] mem nid xr ns]
  have "map_of rs1 x
      = Some \<lparr>value_fut = Done (PStr s), known_fut = Done True, secret_fut = Done False\<rparr>"
    by simp
  moreover from mem have "x \<in> fst ` set ap" by force
  from resolve_missing_keeps[OF m this] have "map_of resolvers' x = map_of rs1 x" .
  ultimately show "map_of resolvers' x
      = Some \<lparr>value_fut = Done (PStr s), known_fut = Done True, secret_fut = Done False\<rparr>"
    by simp
next
  assume a: "combined_properties st res serialized_props outputs = Inr all_properties
    \<and> (\<forall>v\<in>snd ` set all_properties. \<exists>y. unwrap_rpc_secret v = Inr y)
    \<and> distinct (map fst resolvers) \<and> (\<forall>r\<in>snd ` set resolvers. r = new_slot)"
  then have d: "distinct (map fst all_properties)" by (auto dest: combined_properties_distinct)
  from a have fresh: "\<And>k r. map_of resolvers k = Some r \<Longrightarrow> r = new_slot"
    by (force dest: map_of_SomeD)
  then have "\<forall>k\<in>fst ` set all_properties. \<forall>r. map_of resolvers k = Some r \<longrightarrow> r = new_slot"
    by blast
  from resolve_loop_total[OF d _ this, of st] a obtain rs1 where
    l: "resolve_loop st all_properties resolvers = Inr rs1" by blast
  have "\<forall>(k, r)\<in>set rs1. k \<notin> fst ` set all_properties \<longrightarrow> r = new_slot"
  proof (clarify)
    fix k r assume kr: "(k, r) \<in> set rs1" and nk: "k \<notin> fst ` set all_properties"
    from resolve_loop_keys[OF l] a have "distinct (map fst rs1)" by simp
    with kr have "map_of rs1 k = Some r" by simp
    with resolve_loop_untouched[OF l nk] have "map_of resolvers k = Some r" by simp
    then show "r = new_slot" by (rule fresh)
  qed
  from resolve_missing_total[OF this, of st] obtain rs2 where
    "resolve_missing st all_properties rs1 = Inr rs2" by blast
  with l a show "\<exists>resolvers'. resolve_outputs st res serialized_props outputs resolvers = Inr resolvers'"
    by (simp add: resolve_outputs_def)
qed

lemma example_backfill_properties:
  "combined_properties (preview\<lparr>is_legacy_apply_enabled := True\<rparr>) untyped_resource
     [(''a'', WBool True), (''x'', WStr ''seed''), (''y'', WNum 2)]
     [(''y'', WNum 1), (''x'', WNull)]
     = Inr [(''y'', PNum 1), (''a'', PBool True), (''x'', PStr ''seed'')]"
  by (simp add: combined_properties_def untyped_resource_def output_types_def
      deserialize_properties.simps special_sig_key_def translate_output_properties.simps
      preview_def Let_def UNKNOWN_def)

lemma example_backfill_resolution:
  "resolve_outputs (preview\<lparr>is_legacy_apply_enabled := True\<rparr>) untyped_resource
     [(''a'', WBool True), (''x'', WStr ''seed''), (''y'', WNum 2)]
     [(''y'', WNum 1), (''x'', WNull)]
     (transfer_properties [''a'', ''x'', ''y'', ''z''])
     = Inr [(''a'', \<lparr>value_fut = Done (PBool True), known_fut = Done True, secret_fut = Done False\<rparr>),
            (''x'', \<lparr>value_fut = Done (PStr ''seed''), known_fut = Done True, secret_fut = Done False\<rparr>),
            (''y'', \<lparr>value_fut = Done (PNum 1), known_fut = Done True, secret_fut = Done False\<rparr>),
            (''z'', \<lparr>value_fut = Done PNone, known_fut = Done False, secret_fut = Done False\<rparr>)]"
proof -
  have "is_dry_run (preview\<lparr>is_legacy_apply_enabled := True\<rparr>)" by (simp add: preview_def)
  then show ?thesis
    by (simp add: resolve_outputs_def example_backfill_properties transfer_properties_def
        is_rpc_secret_def do_resolve_new_slot)
qed

theorem backfill_in_preview_witness:
  "is_dry_run (preview\<lparr>is_legacy_apply_enabled := True\<rparr>)
   \<and> is_legacy_apply_enabled (preview\<lparr>is_legacy_apply_enabled := True\<rparr>)
   \<and> deserialize_properties (preview\<lparr>is_legacy_apply_enabled := True\<rparr>)
       [(''y'', WNum 1), (''x'', WNull)] None = Inr (PDict [(''y'', PNum 1)])
   \<and> ''x'' \<notin> translate_output_property untyped_resource ` fst ` set [(''y'', PNum 1)]
   \<and> map_of (map (\<lambda>kv. (translate_output_property untyped_resource (fst kv), snd kv))
        [(''a'', WBool True), (''x'', WStr ''seed''), (''y'', WNum 2)]) ''x'' = Some (WStr ''seed'')
   \<and> ''seed'' \<noteq> UNKNOWN
   \<and> transfer_properties [''a'', ''x'', ''y'', ''z'']
       = [(''a'', new_slot), (''x'', new_slot), (''y'', new_slot), (''z'', new_slot)]
   \<and> combined_properties (preview\<lparr>is_legacy_apply_enabled := True\<rparr>) untyped_resource
       [(''a'', WBool True), (''x'', WStr ''seed''), (''y'', WNum 2)]
       [(''y'', WNum 1), (''x'', WNull)]
       = Inr [(''y'', PNum 1), (''a'', PBool True), (''x'', PStr ''seed'')]
   \<and> resolve_outputs (preview\<lparr>is_legacy_apply_enabled := True\<rparr>) untyped_resource
       [(''a'', WBool True), (''x'', WStr ''seed''), (''y'', WNum 2)]
       [(''y'', WNum 1), (''x'', WNull)]
       (transfer_properties [''a'', ''x'', ''y'', ''z''])
       = Inr [(''a'', \<lparr>value_fut = Done (PBool True), known_fut = Done True, secret_fut = Done False\<rparr>),
            (''x'', \<lparr>value_fut = Done (PStr ''seed''), known_fut = Done True, secret_fut = Done False\<rparr>),
            (''y'', \<lparr>value_fut = Done (PNum 1), known_fut = Done True, secret_fut = Done False\<rparr>),
            (''z'', \<lparr>value_fut = Done PNone, known_fut = Done False, secret_fut = Done False\<rparr>)]
   \<and> map_of
        [(''a'', \<lparr>value_fut = Done (PBool True), known_fut = Done True, secret_fut = Done False\<rparr>),
         (''x'', \<lparr>value_fut = Done (PStr ''seed''), known_fut = Done True, secret_fut = Done False\<rparr>),
         (''y'', \<lparr>value_fut = Done (PNum 1), known_fut = Done True, secret_fut = Done False\<rparr>),
         (''z'', \<lparr>value_fut = Done PNone, known_fut = Done False, secret_fut = Done False\<rparr>)] ''x''
       = Some \<lparr>value_fut = Done (PStr ''seed''), known_fut = Done True, secret_fut = Done False\<rparr>"
proof -
  have h1: "is_dry_run (preview\<lparr>is_legacy_apply_enabled := True\<rparr>)"
    and h2: "is_legacy_apply_enabled (preview\<lparr>is_legacy_apply_enabled := True\<rparr>)"
    by (simp_all add: preview_def)
  have h3: "deserialize_properties (preview\<lparr>is_legacy_apply_enabled := True\<rparr>)
       [(''y'', WNum 1), (''x'', WNull)] None = Inr (PDict [(''y'', PNum 1)])"
    by (simp add: deserialize_properties.simps special_sig_key_def)
  have h4: "''x'' \<notin> translate_output_property untyped_resource ` fst ` set [(''y'', PNum 1)]"
    by (simp add: untyped_resource_def)
  have h5: "map_of (map (\<lambda>kv. (translate_output_property untyped_resource (fst kv), snd kv))
        [(''a'', WBool True), (''x'', WStr ''seed''), (''y'', WNum 2)]) ''x'' = Some (WStr ''seed'')"
    by (simp add: untyped_resource_def)
  have h6: "''seed'' \<noteq> UNKNOWN" by (simp add: UNKNOWN_def)
  have t: "transfer_properties [''a'', ''x'', ''y'', ''z'']
       = [(''a'', new_slot), (''x'', new_slot), (''y'', new_slot), (''z'', new_slot)]"
    by (simp add: transfer_properties_def)
  from backfill_in_preview
    [of "preview\<lparr>is_legacy_apply_enabled := True\<rparr>" "[(''y'', WNum 1), (''x'', WNull)]"
      "PDict [(''y'', PNum 1)]" "[(''y'', PNum 1)]" "''x''" untyped_resource
      "[(''a'', WBool True), (''x'', WStr ''seed''), (''y'', WNum 2)]" "''seed''"
      "transfer_properties [''a'', ''x'', ''y'', ''z'']"
      "[(''a'', \<lparr>value_fut = Done (PBool True), known_fut = Done True, secret_fut = Done False\<rparr>),
        (''x'', \<lparr>value_fut = Done (PStr ''seed''), known_fut = Done True, secret_fut = Done False\<rparr>),
        (''y'', \<lparr>value_fut = Done (PNum 1), known_fut = Done True, secret_fut = Done False\<rparr>),
        (''z'', \<lparr>value_fut = Done PNone, known_fut = Done False, secret_fut = Done False\<rparr>)]"
      "[(''y'', PNum 1), (''a'', PBool True), (''x'', PStr ''seed'')]"]
    example_backfill_properties example_backfill_resolution h1 h2 h3 h4 h5 h6 t
  show ?thesis by simp
qed

subsection \<open>Resolution by an exception\<close>

text \<open>
  C8. When \<open>resolve_outputs_due_to_exception\<close> returns, the resolvers have the names
  they had, and awaiting the value, the known flag or the secret flag of any slot raises
  the exception the call was given; no later call of a resolver changes that, since it
  raises \<open>InvalidStateError\<close>. The call does return on resolvers whose futures are all
  pending, which is how \<open>transfer_properties\<close> creates them.
\<close>

theorem exception_poisons_every_slot:
  "(resolve_outputs_due_to_exception resolvers exn = Inr resolved \<longrightarrow>
      map fst resolved = map fst resolvers
      \<and> (\<forall>s\<in>snd ` set resolved.
            await (value_fut s) = Some (Inl exn) \<and> await (known_fut s) = Some (Inl exn)
          \<and> await (secret_fut s) = Some (Inl exn)
          \<and> (\<forall>v k sec failed. do_resolve s v k sec failed = Inl InvalidStateError)))
   \<and> ((\<forall>s\<in>snd ` set resolvers. s = new_slot) \<longrightarrow>
        (\<exists>resolved. resolve_outputs_due_to_exception resolvers exn = Inr resolved))"
proof (intro conjI impI)
  assume a: "resolve_outputs_due_to_exception resolvers exn = Inr resolved"
  from poison_all[OF due_to_exception_pending[OF a], of exn] a
  have r: "resolved = map (\<lambda>kv. (fst kv,
          \<lparr>value_fut = Failed exn, known_fut = Failed exn, secret_fut = Failed exn\<rparr>)) resolvers"
    by simp
  then show "map fst resolved = map fst resolvers" by (simp add: comp_def)
  from r show "\<forall>s\<in>snd ` set resolved.
            await (value_fut s) = Some (Inl exn) \<and> await (known_fut s) = Some (Inl exn)
          \<and> await (secret_fut s) = Some (Inl exn)
          \<and> (\<forall>v k sec failed. do_resolve s v k sec failed = Inl InvalidStateError)"
    by (auto simp: do_resolve_poisoned)
next
  assume "\<forall>s\<in>snd ` set resolvers. s = new_slot"
  from poison_all[OF this, of exn]
  show "\<exists>resolved. resolve_outputs_due_to_exception resolvers exn = Inr resolved" by simp
qed

theorem exception_poisons_every_slot_witness:
  "transfer_properties [''a'', ''b''] = [(''a'', new_slot), (''b'', new_slot)]
   \<and> resolve_outputs_due_to_exception (transfer_properties [''a'', ''b'']) (ValueError ''E'')
     = Inr [(''a'', \<lparr>value_fut = Failed (ValueError ''E''), known_fut = Failed (ValueError ''E''),
                    secret_fut = Failed (ValueError ''E'')\<rparr>),
            (''b'', \<lparr>value_fut = Failed (ValueError ''E''), known_fut = Failed (ValueError ''E''),
                    secret_fut = Failed (ValueError ''E'')\<rparr>)]
   \<and> await (Failed (ValueError ''E'') :: pyval future) = Some (Inl (ValueError ''E''))
   \<and> await (Failed (ValueError ''E'') :: bool future) = Some (Inl (ValueError ''E''))"
  using exception_poisons_every_slot
    [of "transfer_properties [''a'', ''b'']" "ValueError ''E''"
      "[(''a'', \<lparr>value_fut = Failed (ValueError ''E''), known_fut = Failed (ValueError ''E''),
                 secret_fut = Failed (ValueError ''E'')\<rparr>),
        (''b'', \<lparr>value_fut = Failed (ValueError ''E''), known_fut = Failed (ValueError ''E''),
                 secret_fut = Failed (ValueError ''E'')\<rparr>)]"]
  by (simp add: transfer_properties_def do_resolve_new_slot)

subsection \<open>Properties that are absent\<close>

text \<open>
  C9. With \<open>all_properties\<close> the dict the first two loops of \<open>resolve_outputs\<close> build:
  when \<open>resolve_outputs\<close> returns, every resolver whose name is not a key of
  \<open>all_properties\<close> has been called with \<open>None\<close>, known exactly when the run is not a dry
  run, and not secret (the resolvers dict has each name once). And \<open>resolve_outputs\<close> does return when \<open>all_properties\<close> is built
  without an exception, every secret wrapper in it has its \<open>value\<close>, and the futures of
  the resolvers are all pending.
\<close>

theorem absent_property_resolved_with_none:
  "(combined_properties st res serialized_props outputs = Inr all_properties
    \<and> resolve_outputs st res serialized_props outputs resolvers = Inr resolvers'
    \<and> distinct (map fst resolvers) \<and> key \<in> fst ` set resolvers
    \<and> key \<notin> fst ` set all_properties \<longrightarrow>
      map_of resolvers' key
        = Some \<lparr>value_fut = Done PNone, known_fut = Done (\<not> is_dry_run st),
               secret_fut = Done False\<rparr>)
   \<and> (combined_properties st res serialized_props outputs = Inr all_properties
    \<and> (\<forall>v\<in>snd ` set all_properties. \<exists>x. unwrap_rpc_secret v = Inr x)
    \<and> distinct (map fst resolvers) \<and> (\<forall>s\<in>snd ` set resolvers. s = new_slot) \<longrightarrow>
      (\<exists>resolvers'. resolve_outputs st res serialized_props outputs resolvers = Inr resolvers'))"
proof (intro conjI impI)
  assume a: "combined_properties st res serialized_props outputs = Inr all_properties
    \<and> resolve_outputs st res serialized_props outputs resolvers = Inr resolvers'
    \<and> distinct (map fst resolvers) \<and> key \<in> fst ` set resolvers
    \<and> key \<notin> fst ` set all_properties"
  then obtain rs1 where l: "resolve_loop st all_properties resolvers = Inr rs1"
    and m: "resolve_missing st all_properties rs1 = Inr resolvers'"
    by (auto simp: resolve_outputs_def split: sum.splits)
  from resolve_loop_keys[OF l] a have d1: "distinct (map fst rs1)"
    and "key \<in> set (map fst rs1)" by auto
  then obtain s where "(key, s) \<in> set rs1" by auto
  from resolve_missing_fulfils[OF m d1 this] a
  show "map_of resolvers' key
        = Some \<lparr>value_fut = Done PNone, known_fut = Done (\<not> is_dry_run st),
               secret_fut = Done False\<rparr>"
    by simp
next
  assume a: "combined_properties st res serialized_props outputs = Inr all_properties
    \<and> (\<forall>v\<in>snd ` set all_properties. \<exists>x. unwrap_rpc_secret v = Inr x)
    \<and> distinct (map fst resolvers) \<and> (\<forall>s\<in>snd ` set resolvers. s = new_slot)"
  then have d: "distinct (map fst all_properties)" by (auto dest: combined_properties_distinct)
  from a have fresh: "\<And>k s. map_of resolvers k = Some s \<Longrightarrow> s = new_slot"
    by (force dest: map_of_SomeD)
  then have "\<forall>k\<in>fst ` set all_properties. \<forall>s. map_of resolvers k = Some s \<longrightarrow> s = new_slot"
    by blast
  from resolve_loop_total[OF d _ this, of st] a obtain rs1 where
    l: "resolve_loop st all_properties resolvers = Inr rs1" by blast
  have "\<forall>(k, s)\<in>set rs1. k \<notin> fst ` set all_properties \<longrightarrow> s = new_slot"
  proof (clarify)
    fix k s assume ks: "(k, s) \<in> set rs1" and nk: "k \<notin> fst ` set all_properties"
    from resolve_loop_keys[OF l] a have "distinct (map fst rs1)" by simp
    with ks have "map_of rs1 k = Some s" by simp
    with resolve_loop_untouched[OF l nk] have "map_of resolvers k = Some s" by simp
    then show "s = new_slot" by (rule fresh)
  qed
  from resolve_missing_total[OF this, of st] obtain rs2 where
    "resolve_missing st all_properties rs1 = Inr rs2" by blast
  with l a show "\<exists>resolvers'. resolve_outputs st res serialized_props outputs resolvers = Inr resolvers'"
    by (simp add: resolve_outputs_def)
qed

lemma example_combined_properties:
  "combined_properties preview untyped_resource [(''x'', WStr ''seed'')] [(''y'', WNum 1)]
     = Inr [(''y'', PNum 1)]"
  by (simp add: combined_properties_def untyped_resource_def output_types_def
      deserialize_properties.simps special_sig_key_def translate_output_properties.simps
      preview_def Let_def)

lemma example_resolve_outputs:
  "resolve_outputs preview untyped_resource [(''x'', WStr ''seed'')] [(''y'', WNum 1)]
       (transfer_properties [''x'', ''y''])
     = Inr [(''x'', \<lparr>value_fut = Done PNone, known_fut = Done False, secret_fut = Done False\<rparr>),
            (''y'', \<lparr>value_fut = Done (PNum 1), known_fut = Done True, secret_fut = Done False\<rparr>)]"
proof -
  have "is_dry_run preview" by (simp add: preview_def)
  then show ?thesis
    by (simp add: resolve_outputs_def example_combined_properties transfer_properties_def is_rpc_secret_def
        do_resolve_new_slot)
qed

theorem absent_property_resolved_with_none_witness:
  "combined_properties preview untyped_resource [(''x'', WStr ''seed'')] [(''y'', WNum 1)]
     = Inr [(''y'', PNum 1)]
   \<and> resolve_outputs preview untyped_resource [(''x'', WStr ''seed'')] [(''y'', WNum 1)]
       (transfer_properties [''x'', ''y''])
     = Inr [(''x'', \<lparr>value_fut = Done PNone, known_fut = Done False, secret_fut = Done False\<rparr>),
            (''y'', \<lparr>value_fut = Done (PNum 1), known_fut = Done True, secret_fut = Done False\<rparr>)]
   \<and> transfer_properties [''x'', ''y''] = [(''x'', new_slot), (''y'', new_slot)]
   \<and> ''x'' \<notin> fst ` set [(''y'', PNum 1)]
   \<and> unwrap_rpc_secret (PNum 1) = Inr (PNum 1)
   \<and> map_of
        [(''x'', \<lparr>value_fut = Done PNone, known_fut = Done False, secret_fut = Done False\<rparr>),
         (''y'', \<lparr>value_fut = Done (PNum 1), known_fut = Done True, secret_fut = Done False\<rparr>)]
        ''x''
       = Some \<lparr>value_fut = Done PNone, known_fut = Done (\<not> is_dry_run preview),
               secret_fut = Done False\<rparr>"
proof -
  have t: "transfer_properties [''x'', ''y''] = [(''x'', new_slot), (''y'', new_slot)]"
    by (simp add: transfer_properties_def)
  have u: "unwrap_rpc_secret (PNum 1) = Inr (PNum 1)"
    by (simp add: unwrap_rpc_secret_def is_rpc_secret_def)
  have d: "is_dry_run preview" by (simp add: preview_def)
  from absent_property_resolved_with_none
    [of preview untyped_resource "[(''x'', WStr ''seed'')]" "[(''y'', WNum 1)]"
      "[(''y'', PNum 1)]" "transfer_properties [''x'', ''y'']"
      "[(''x'', \<lparr>value_fut = Done PNone, known_fut = Done False, secret_fut = Done False\<rparr>),
        (''y'', \<lparr>value_fut = Done (PNum 1), known_fut = Done True, secret_fut = Done False\<rparr>)]"
      "''x''"]
    example_combined_properties example_resolve_outputs t u d
  show ?thesis by simp
qed

subsection \<open>Lists keep their elements\<close>

text \<open>
  C10. When \<open>deserialize_property\<close> returns for a \<open>ListValue\<close>, the result is a list, or
  the secret wrapper of a list, of the same length; its element at each position is the
  deserialized member at that position with a secret wrapper taken off, and a member
  that deserializes to \<open>None\<close> is \<open>None\<close> at its position. \<open>deserialize_properties\<close> of a
  \<open>Struct\<close> without the signature key returns a dict with no \<open>None\<close> value, and without
  the key of any field that deserializes to \<open>None\<close>.
\<close>

theorem list_elements_kept_in_place:
  "(deserialize_property st (WList ws) keep = Inr r \<longrightarrow>
      (\<exists>xs. (r = PList xs \<or> r = secret_wrapper (PList xs)) \<and> length xs = length ws
         \<and> (\<forall>i<length ws.
               (\<exists>v. deserialize_property st (ws ! i) keep = Inr v
                    \<and> unwrap_rpc_secret v = Inr (xs ! i))
             \<and> (deserialize_property st (ws ! i) keep = Inr PNone \<longrightarrow> xs ! i = PNone))))
   \<and> (map_of fs special_sig_key = None \<and> distinct (map fst fs)
       \<and> deserialize_properties st fs keep = Inr r' \<longrightarrow>
      (\<exists>d. r' = PDict d \<and> PNone \<notin> snd ` set d
         \<and> (\<forall>f\<in>set fs. deserialize_property st (snd f) keep = Inr PNone
               \<longrightarrow> fst f \<notin> fst ` set d)))"
proof (intro conjI impI)
  assume a: "deserialize_property st (WList ws) keep = Inr r"
  then obtain vs where e: "deserialize_elems st ws keep = Inr vs"
    by (auto split: sum.splits)
  then have m: "list_all2 (\<lambda>w v. deserialize_property st w keep = Inr v) ws vs"
    by (simp add: deserialize_elems_iff)
  then have len: "length vs = length ws" by (auto dest: list_all2_lengthD)
  from m have nth: "\<And>i. i < length ws \<Longrightarrow> deserialize_property st (ws ! i) keep = Inr (vs ! i)"
    by (auto simp: list_all2_conv_all_nth)
  show "\<exists>xs. (r = PList xs \<or> r = secret_wrapper (PList xs)) \<and> length xs = length ws
         \<and> (\<forall>i<length ws.
               (\<exists>v. deserialize_property st (ws ! i) keep = Inr v
                    \<and> unwrap_rpc_secret v = Inr (xs ! i))
             \<and> (deserialize_property st (ws ! i) keep = Inr PNone \<longrightarrow> xs ! i = PNone))"
  proof (cases "list_ex is_rpc_secret vs")
    case False
    with a e have r: "r = PList vs" by simp
    from False len have "\<And>i. i < length ws \<Longrightarrow> unwrap_rpc_secret (vs ! i) = Inr (vs ! i)"
      by (auto simp: list_ex_iff unwrap_not_secret)
    with r len nth show ?thesis by auto
  next
    case True
    with a e obtain us where us: "unwrap_elems vs = Inr us" and r: "r = secret_wrapper (PList us)"
      by (auto split: sum.splits)
    from us have u: "list_all2 (\<lambda>v u. unwrap_rpc_secret v = Inr u) vs us"
      by (simp add: unwrap_elems_iff)
    then have ulen: "length us = length vs" by (auto dest: list_all2_lengthD)
    from u len have unth: "\<And>i. i < length ws \<Longrightarrow> unwrap_rpc_secret (vs ! i) = Inr (us ! i)"
      by (auto simp: list_all2_conv_all_nth)
    have "\<And>i. i < length ws \<Longrightarrow> deserialize_property st (ws ! i) keep = Inr PNone \<Longrightarrow>
        us ! i = PNone"
    proof -
      fix i assume "i < length ws" "deserialize_property st (ws ! i) keep = Inr PNone"
      with nth[of i] unth[of i] show "us ! i = PNone" by simp
    qed
    with r len ulen nth unth show ?thesis by auto
  qed
next
  assume a: "map_of fs special_sig_key = None \<and> distinct (map fst fs)
       \<and> deserialize_properties st fs keep = Inr r'"
  then obtain out where o: "deserialize_items st fs keep [] = Inr out" and r: "r' = PDict out"
    by (auto simp: deserialize_properties.simps split: sum.splits)
  from deserialize_items_members[OF o] obtain es where
    es: "list_all2 (\<lambda>f e. fst e = fst f \<and> deserialize_property st (snd f) keep = Inr (snd e)) fs es"
    by blast
  from deserialize_items_entries[OF es, of "[]"] a o
  have out: "out = filter (\<lambda>e. snd e \<noteq> PNone) es" by simp
  then have nn: "PNone \<notin> snd ` set out" by auto
  have "\<forall>f\<in>set fs. deserialize_property st (snd f) keep = Inr PNone \<longrightarrow> fst f \<notin> fst ` set out"
  proof (intro ballI impI notI)
    fix f assume f: "f \<in> set fs" "deserialize_property st (snd f) keep = Inr PNone"
      and "fst f \<in> fst ` set out"
    then obtain e where e: "e \<in> set es" "snd e \<noteq> PNone" "fst e = fst f"
      unfolding out by auto
    from a have "distinct (map fst fs)" by simp
    from entry_of_distinct_key[OF es this f(1) e(1) e(3)] f(2) e(2) show False by simp
  qed
  with r nn show "\<exists>d. r' = PDict d \<and> PNone \<notin> snd ` set d
         \<and> (\<forall>f\<in>set fs. deserialize_property st (snd f) keep = Inr PNone
               \<longrightarrow> fst f \<notin> fst ` set d)"
    by blast
qed

theorem list_elements_kept_in_place_witness:
  "deserialize_property deployment (WList [WNull, WNum 2, WStr UNKNOWN]) None
     = Inr (PList [PNone, PNum 2, PNone])
   \<and> length [PNone, PNum 2, PNone] = length [WNull, WNum 2, WStr UNKNOWN]
   \<and> map_of [(''a'', WNull), (''b'', WNum 1)] special_sig_key = None
   \<and> distinct (map fst [(''a'', WNull), (''b'', WNum (1::int))])
   \<and> deserialize_properties deployment [(''a'', WNull), (''b'', WNum 1)] None
       = Inr (PDict [(''b'', PNum 1)])
   \<and> ''a'' \<notin> fst ` set [(''b'', PNum 1)]"
  using list_elements_kept_in_place
    [of deployment "[WNull, WNum 2, WStr UNKNOWN]" None "PList [PNone, PNum 2, PNone]"
      "[(''a'', WNull), (''b'', WNum 1)]" "PDict [(''b'', PNum 1)]"]
  by (simp add: deserialize_properties.simps deployment_def is_rpc_secret_def special_sig_key_def)

end
